theory Spec2Isabelle
  imports Main "HOL-Library.Word"
begin

section \<open>Machine integers and byte order\<close>

type_synonym u8 = "8 word"
type_synonym u16 = "16 word"
type_synonym u32 = "32 word"

text \<open>
  \<open>htons\<close>, \<open>htonl\<close> and \<open>ntohs\<close> depend on the host: on a little-endian host they
  reverse the bytes of their argument, on a big-endian host they are the identity.
  The host byte order is a parameter of every definition that uses them.
\<close>

datatype byte_order = LittleEndian | BigEndian

definition bswap16 :: "u16 \<Rightarrow> u16" where
  "bswap16 x = or (push_bit 8 x) (drop_bit 8 x)"

definition bswap32 :: "u32 \<Rightarrow> u32" where
  "bswap32 x =
     or (push_bit 24 x)
        (or (push_bit 16 (drop_bit 24 (push_bit 16 x)))
            (or (push_bit 8 (drop_bit 24 (push_bit 8 x))) (drop_bit 24 x)))"

definition htons :: "byte_order \<Rightarrow> u16 \<Rightarrow> u16" where
  "htons bo x = (case bo of LittleEndian \<Rightarrow> bswap16 x | BigEndian \<Rightarrow> x)"

definition ntohs :: "byte_order \<Rightarrow> u16 \<Rightarrow> u16" where
  "ntohs bo x = (case bo of LittleEndian \<Rightarrow> bswap16 x | BigEndian \<Rightarrow> x)"

definition htonl :: "byte_order \<Rightarrow> u32 \<Rightarrow> u32" where
  "htonl bo x = (case bo of LittleEndian \<Rightarrow> bswap32 x | BigEndian \<Rightarrow> x)"

definition MAC_ADDR_LEN :: nat where
  "MAC_ADDR_LEN = 6"

definition IP_ADDR_LEN :: nat where
  "IP_ADDR_LEN = 4"

text \<open>\<open>#define IP_ONE htonl( 1 )\<close>\<close>

definition IP_ONE :: "byte_order \<Rightarrow> u32" where
  "IP_ONE bo = htonl bo 1"

definition MAX_TRIES_FOR_RESOLV :: int where
  "MAX_TRIES_FOR_RESOLV = 5"

definition ETH_P_ARP :: u16 where
  "ETH_P_ARP = 0x0806"

definition ETH_P_IP :: u16 where
  "ETH_P_IP = 0x0800"

definition ARPHRD_ETHER :: u16 where
  "ARPHRD_ETHER = 1"

definition ARPOP_REQUEST :: u16 where
  "ARPOP_REQUEST = 1"

definition ARPOP_REPLY :: u16 where
  "ARPOP_REPLY = 2"

section \<open>Hardware addresses\<close>

text \<open>
  \<open>struct HWAddr { uint8_t hw[MAC_ADDR_LEN]; }\<close>: an array of exactly six bytes.
\<close>

datatype HWAddr = HWAddr u8 u8 u8 u8 u8 u8

fun hw :: "HWAddr \<Rightarrow> u8 list" where
  "hw (HWAddr a b c d e f) = [a, b, c, d, e, f]"

text \<open>
  \<open>memcmp\<close> on two byte arrays of the same length: the sign of the first difference,
  bytes compared as unsigned.
\<close>

fun memcmp :: "u8 list \<Rightarrow> u8 list \<Rightarrow> int" where
  "memcmp (a # as) (b # bs) =
     (if a < b then - 1 else if b < a then 1 else memcmp as bs)"
| "memcmp _ _ = 0"

text \<open>\<open>HWAddr::operator <\<close>\<close>

definition hw_less :: "HWAddr \<Rightarrow> HWAddr \<Rightarrow> bool" where
  "hw_less x m \<longleftrightarrow> memcmp (hw x) (hw m) < 0"

subsection \<open>Formatting\<close>

text \<open>
  The part of \<open>std::ostringstream\<close> that \<open>HWAddr::toString\<close> uses: the characters
  written so far, the field width and the fill character. The base is hexadecimal
  throughout (\<open>out << hex\<close>). Every formatted insertion pads its text on the left
  up to the field width and then resets the width to 0, as \<open>operator<<\<close> does.
\<close>

record ostringstream =
  str :: string
  width :: nat
  fill :: char

definition hex_digit :: "nat \<Rightarrow> char" where
  "hex_digit d = ''0123456789abcdef'' ! d"

fun hex_digits :: "nat \<Rightarrow> string" where
  "hex_digits n =
     (if n < 16 then [hex_digit n] else hex_digits (n div 16) @ [hex_digit (n mod 16)])"

declare hex_digits.simps [simp del]

definition put :: "string \<Rightarrow> ostringstream \<Rightarrow> ostringstream" where
  "put t out =
     out\<lparr>str := str out @ replicate (width out - length t) (fill out) @ t, width := 0\<rparr>"

text \<open>\<open>out << n\<close> for a non-negative \<open>int\<close>, in base 16.\<close>

definition put_int :: "nat \<Rightarrow> ostringstream \<Rightarrow> ostringstream" where
  "put_int n out = put (hex_digits n) out"

text \<open>\<open>out << c\<close> for a character.\<close>

definition put_char :: "char \<Rightarrow> ostringstream \<Rightarrow> ostringstream" where
  "put_char c out = put [c] out"

text \<open>
  The body of the loop of \<open>toString\<close> for the byte \<open>b\<close> at index \<open>i\<close>:
  \<open>out << static_cast<int>(hw[i]); if (hw[i] == 0) out << 0; if (++i != MAC_ADDR_LEN) out << ':';\<close>
\<close>

definition toString_byte :: "nat \<Rightarrow> u8 \<Rightarrow> ostringstream \<Rightarrow> ostringstream" where
  "toString_byte i b out =
     (let out1 = put_int (unat b) out;
          out2 = (if b = 0 then put_int 0 out1 else out1)
      in if Suc i \<noteq> MAC_ADDR_LEN then put_char CHR '':'' out2 else out2)"

fun toString_loop :: "nat \<Rightarrow> u8 list \<Rightarrow> ostringstream \<Rightarrow> ostringstream" where
  "toString_loop i [] out = out"
| "toString_loop i (b # bs) out = toString_loop (Suc i) bs (toString_byte i b out)"

text \<open>
  \<open>HWAddr::toString\<close>: \<open>out << hex << setfill('0') << setw(2)\<close>, then the loop
  over the six bytes.
\<close>

definition toString :: "HWAddr \<Rightarrow> string" where
  "toString x = str (toString_loop 0 (hw x) \<lparr>str = [], width = 2, fill = CHR ''0''\<rparr>)"

text \<open>The canonical form: each byte as two hexadecimal digits, colons in between.\<close>

definition hex2 :: "u8 \<Rightarrow> string" where
  "hex2 b = [hex_digit (unat b div 16), hex_digit (unat b mod 16)]"

fun canonical :: "HWAddr \<Rightarrow> string" where
  "canonical (HWAddr a b c d e f) =
     hex2 a @ '':'' @ hex2 b @ '':'' @ hex2 c @ '':'' @ hex2 d @ '':'' @ hex2 e @ '':'' @ hex2 f"

section \<open>ARP frames\<close>

text \<open>
  \<open>struct ARPFrame\<close>. The 16-bit and 32-bit fields hold the value the host sees when
  it reads the field, so what is on the wire depends on the host byte order.
\<close>

record ARPFrame =
  eth_dst :: HWAddr
  eth_src :: HWAddr
  eth_ethertype :: u16
  hw_type :: u16
  protocol :: u16
  hw_len :: u8
  proto_len :: u8
  opcode :: u16
  hw_src :: HWAddr
  ip_src :: u32
  hw_dst :: HWAddr
  ip_dst :: u32

text \<open>The bytes of an integer in memory, lowest address first, and back.\<close>

definition u16_mem :: "byte_order \<Rightarrow> u16 \<Rightarrow> u8 list" where
  "u16_mem bo x =
     (case bo of
        LittleEndian \<Rightarrow> [ucast x, ucast (drop_bit 8 x)]
      | BigEndian \<Rightarrow> [ucast (drop_bit 8 x), ucast x])"

definition u32_mem :: "byte_order \<Rightarrow> u32 \<Rightarrow> u8 list" where
  "u32_mem bo x =
     (case bo of
        LittleEndian \<Rightarrow>
          [ucast x, ucast (drop_bit 8 x), ucast (drop_bit 16 x), ucast (drop_bit 24 x)]
      | BigEndian \<Rightarrow>
          [ucast (drop_bit 24 x), ucast (drop_bit 16 x), ucast (drop_bit 8 x), ucast x])"

definition mem_u16 :: "byte_order \<Rightarrow> u8 list \<Rightarrow> u16" where
  "mem_u16 bo bs =
     (case bo of
        LittleEndian \<Rightarrow> or (ucast (bs ! 0)) (push_bit 8 (ucast (bs ! 1)))
      | BigEndian \<Rightarrow> or (ucast (bs ! 1)) (push_bit 8 (ucast (bs ! 0))))"

definition mem_u32 :: "byte_order \<Rightarrow> u8 list \<Rightarrow> u32" where
  "mem_u32 bo bs =
     (case bo of
        LittleEndian \<Rightarrow>
          or (ucast (bs ! 0))
             (or (push_bit 8 (ucast (bs ! 1)))
                 (or (push_bit 16 (ucast (bs ! 2))) (push_bit 24 (ucast (bs ! 3)))))
      | BigEndian \<Rightarrow>
          or (ucast (bs ! 3))
             (or (push_bit 8 (ucast (bs ! 2)))
                 (or (push_bit 16 (ucast (bs ! 1))) (push_bit 24 (ucast (bs ! 0))))))"

text \<open>\<open>memcpy( hw, m, MAC_ADDR_LEN )\<close>: the constructor of \<open>HWAddr\<close>.\<close>

definition hw_of_mem :: "u8 list \<Rightarrow> HWAddr" where
  "hw_of_mem m = HWAddr (m ! 0) (m ! 1) (m ! 2) (m ! 3) (m ! 4) (m ! 5)"

text \<open>
  The structure is packed: its 42 bytes are the fields in the order of declaration,
  with no padding. \<open>write( sfd, &request, sizeof(request) )\<close> sends these bytes.
\<close>

definition frame_mem :: "byte_order \<Rightarrow> ARPFrame \<Rightarrow> u8 list" where
  "frame_mem bo f =
     hw (eth_dst f) @ hw (eth_src f) @ u16_mem bo (eth_ethertype f) @
     u16_mem bo (hw_type f) @ u16_mem bo (protocol f) @ [hw_len f, proto_len f] @
     u16_mem bo (opcode f) @ hw (hw_src f) @ u32_mem bo (ip_src f) @
     hw (hw_dst f) @ u32_mem bo (ip_dst f)"

definition sizeof_ARPFrame :: nat where
  "sizeof_ARPFrame = 42"

text \<open>The structure that 42 bytes of memory hold.\<close>

definition mem_frame :: "byte_order \<Rightarrow> u8 list \<Rightarrow> ARPFrame" where
  "mem_frame bo bs = \<lparr>
     eth_dst = hw_of_mem (take 6 bs),
     eth_src = hw_of_mem (take 6 (drop 6 bs)),
     eth_ethertype = mem_u16 bo (take 2 (drop 12 bs)),
     hw_type = mem_u16 bo (take 2 (drop 14 bs)),
     protocol = mem_u16 bo (take 2 (drop 16 bs)),
     hw_len = bs ! 18,
     proto_len = bs ! 19,
     opcode = mem_u16 bo (take 2 (drop 20 bs)),
     hw_src = hw_of_mem (take 6 (drop 22 bs)),
     ip_src = mem_u32 bo (take 4 (drop 28 bs)),
     hw_dst = hw_of_mem (take 6 (drop 32 bs)),
     ip_dst = mem_u32 bo (take 4 (drop 38 bs))\<rparr>"

text \<open>
  \<open>read( sfd, &reply, sizeof(reply) ) > 0\<close> when the socket holds the frame \<open>bs\<close>:
  the first bytes of \<open>bs\<close>, 42 at most, are copied over the beginning of \<open>reply\<close>, and
  what the frame does not reach keeps the bytes it had. \<open>None\<close> is a read that returns
  no byte; a read that fails or times out is the empty \<open>bs\<close> as well.
\<close>

definition read_frame :: "byte_order \<Rightarrow> ARPFrame \<Rightarrow> u8 list \<Rightarrow> ARPFrame option" where
  "read_frame bo reply bs =
     (if bs = [] then None
      else Some (mem_frame bo (take sizeof_ARPFrame bs @ drop (length bs) (frame_mem bo reply))))"

text \<open>
  The reads of a function that keeps one variable \<open>reply\<close>, as \<open>scan\<close> and \<open>guard\<close>
  do: what each read leaves in \<open>reply\<close>, or \<open>None\<close>.
\<close>

fun receive :: "byte_order \<Rightarrow> ARPFrame \<Rightarrow> u8 list list \<Rightarrow> ARPFrame option list" where
  "receive bo reply [] = []"
| "receive bo reply (bs # bss) =
     (case read_frame bo reply bs of
        None \<Rightarrow> None # receive bo reply bss
      | Some reply' \<Rightarrow> Some reply' # receive bo reply' bss)"

text \<open>\<open>struct LocalData\<close>\<close>

record LocalData =
  ifindex :: int
  ipAddr :: u32
  firstHost :: u32
  lastHost :: u32
  hwAddr :: HWAddr

text \<open>
  The request that \<open>scan\<close> builds before its loop (\<open>memset\<close> of \<open>eth_dst\<close> with
  \<open>0xff\<close>, \<open>memset\<close> of \<open>hw_dst\<close> with 0) and completes in the loop with
  \<open>request.ip_dst = host.s_addr\<close>.
\<close>

definition request :: "byte_order \<Rightarrow> LocalData \<Rightarrow> u32 \<Rightarrow> ARPFrame" where
  "request bo ld host = \<lparr>
     eth_dst = HWAddr 0xff 0xff 0xff 0xff 0xff 0xff,
     eth_src = hwAddr ld,
     eth_ethertype = htons bo ETH_P_ARP,
     hw_type = htons bo ARPHRD_ETHER,
     protocol = htons bo ETH_P_IP,
     hw_len = of_nat MAC_ADDR_LEN,
     proto_len = of_nat IP_ADDR_LEN,
     opcode = htons bo ARPOP_REQUEST,
     hw_src = hwAddr ld,
     ip_src = ipAddr ld,
     hw_dst = HWAddr 0 0 0 0 0 0,
     ip_dst = host\<rparr>"

section \<open>The ARP table\<close>

text \<open>
  \<open>typedef map< HWAddr, struct in_addr> ARPTable\<close>: the entries in the order in which
  the map iterates over them, which is the order of \<open>HWAddr::operator <\<close>. Two keys
  are the same key of the map when neither is less than the other.
\<close>

type_synonym ARPTable = "(HWAddr \<times> u32) list"

text \<open>\<open>table[k] = v\<close>\<close>

fun table_insert :: "HWAddr \<Rightarrow> u32 \<Rightarrow> ARPTable \<Rightarrow> ARPTable" where
  "table_insert k v [] = [(k, v)]"
| "table_insert k v ((a, b) # t) =
     (if hw_less k a then (k, v) # (a, b) # t
      else if hw_less a k then (a, b) # table_insert k v t
      else (a, v) # t)"

text \<open>\<open>table.at(k)\<close>; \<open>None\<close> is the exception \<open>out_of_range\<close>.\<close>

fun table_at :: "ARPTable \<Rightarrow> HWAddr \<Rightarrow> u32 option" where
  "table_at [] k = None"
| "table_at ((a, b) # t) k =
     (if \<not> hw_less a k \<and> \<not> hw_less k a then Some b else table_at t k)"

section \<open>The scan\<close>

text \<open>
  The socket delivers a sequence of results of \<open>read\<close>, as \<open>receive\<close> gives them:
  \<open>Some reply\<close> for a read that returned a positive count and left \<open>reply\<close> in the
  variable, \<open>None\<close> for a read that returned nothing within the receive timeout. When
  the sequence is used up, every further read times out.

  The test of line 246 on a frame read while \<open>host\<close> is being resolved:
\<close>

definition resolves :: "byte_order \<Rightarrow> u32 \<Rightarrow> ARPFrame \<Rightarrow> bool" where
  "resolves bo host reply \<longleftrightarrow> ntohs bo (opcode reply) = ARPOP_REPLY \<and> ip_src reply = host"

text \<open>
  The \<open>do ... while( attempts )\<close> loop for one host: the table and the reads that
  are left when it ends.
\<close>

fun scan_read_loop ::
  "byte_order \<Rightarrow> int \<Rightarrow> u32 \<Rightarrow> ARPTable \<Rightarrow> ARPFrame option list \<Rightarrow>
     ARPTable \<times> ARPFrame option list" where
  "scan_read_loop bo attempts host table [] = (table, [])"
| "scan_read_loop bo attempts host table (None # rs) = (table, rs)"
| "scan_read_loop bo attempts host table (Some reply # rs) =
     (if resolves bo host reply
      then (table_insert (hw_src reply) (ip_src reply) table, rs)
      else if attempts - 1 \<noteq> 0 then scan_read_loop bo (attempts - 1) host table rs
      else (table, rs))"

text \<open>
  The \<open>for\<close> loop of \<open>scan\<close>, from \<open>host\<close> on. It ends when \<open>host\<close> equals
  \<open>ld.lastHost\<close>, which may never happen: the loop runs on fuel, and \<open>None\<close> means
  that the fuel did not suffice. The result is the table and the requests written to
  the socket, one for each host tried, in order.
\<close>

fun scan_loop ::
  "byte_order \<Rightarrow> LocalData \<Rightarrow> nat \<Rightarrow> u32 \<Rightarrow> ARPTable \<Rightarrow> ARPFrame option list \<Rightarrow>
     (ARPTable \<times> ARPFrame list) option" where
  "scan_loop bo ld 0 host table rs = None"
| "scan_loop bo ld (Suc fuel) host table rs =
     (if host \<noteq> lastHost ld then
        (case scan_read_loop bo MAX_TRIES_FOR_RESOLV host table rs of
           (table', rs') \<Rightarrow>
             map_option (\<lambda>(t, written). (t, request bo ld host # written))
               (scan_loop bo ld fuel (host + IP_ONE bo) table' rs'))
      else Some (table, []))"

definition scan ::
  "byte_order \<Rightarrow> LocalData \<Rightarrow> nat \<Rightarrow> ARPFrame option list \<Rightarrow>
     (ARPTable \<times> ARPFrame list) option" where
  "scan bo ld fuel rs = scan_loop bo ld fuel (firstHost ld) [] rs"

section \<open>The guard\<close>

text \<open>What \<open>guard\<close> does that can be observed, in order.\<close>

datatype event =
    Poisoning HWAddr u32
      \<comment> \<open>the line \<open><hw> is poisoning <ip>. Would you like to add a permanent entry to
          avoid the faking? (Y/N)\<close>, followed by \<open>getline( cin, option )\<close>\<close>
  | CallAddARPEntry u32 HWAddr
      \<comment> \<open>the call \<open>addARPEntry( ifname, ip, hw )\<close>\<close>
  | EntryAdded
      \<comment> \<open>\<open>Entry added\<close>\<close>
  | Cerr string
      \<comment> \<open>\<open>e.what()\<close> on the error stream\<close>
  | MissingEntry
      \<comment> \<open>\<open>There's a missing entry. Please run the tool again for a new scan.\<close>\<close>
  | NewDevice
      \<comment> \<open>\<open>There's a new device. You should try with a new scan.\<close>\<close>

text \<open>
  The table is a constant reference parameter of \<open>guard\<close>; it is kept with the local
  variable \<open>ignored\<close> and the events so far.
\<close>

record guard_state =
  table :: ARPTable
  ignored :: "u32 set"
  trace :: "event list"

text \<open>
  What the surroundings supply to one iteration of \<open>while( active )\<close>: the result of
  \<open>read\<close>, the content of \<open>option\<close> after \<open>getline\<close> if the iteration asks, and
  the outcome of the \<open>ioctl\<close> of \<open>addARPEntry\<close> if the iteration calls it
  (\<open>Some\<close> of the text of \<open>strerror(errno)\<close> when it returns -1).
\<close>

record guard_input =
  rd :: "ARPFrame option"
  answer :: string
  ioctl_error :: "string option"

text \<open>\<open>addARPEntry\<close>: \<open>Inl\<close> is the \<open>runtime_error\<close> it throws.\<close>

definition addARPEntry :: "string option \<Rightarrow> u32 \<Rightarrow> HWAddr \<Rightarrow> string + unit" where
  "addARPEntry err ip h =
     (case err of
        Some msg \<Rightarrow> Inl (''Add ARP entry: '' @ msg)
      | None \<Rightarrow> Inr ())"

definition emit :: "event list \<Rightarrow> guard_state \<Rightarrow> guard_state" where
  "emit evs s = s\<lparr>trace := trace s @ evs\<rparr>"

text \<open>
  Lines 283 to 306: the sender \<open>h\<close> is in the table with another address than \<open>ip\<close>,
  and \<open>ip\<close> is not ignored.
\<close>

definition guard_conflict :: "guard_input \<Rightarrow> HWAddr \<Rightarrow> u32 \<Rightarrow> guard_state \<Rightarrow> guard_state" where
  "guard_conflict e h ip s =
     (let s1 = emit [Poisoning h ip] s;
          (find, s2) =
            (if answer e \<noteq> ''N'' \<and> answer e \<noteq> ''n'' then
               (case List.find (\<lambda>i. snd i = ip) (table s1) of
                  None \<Rightarrow> (False, s1)
                | Some i \<Rightarrow>
                    (case addARPEntry (ioctl_error e) ip (fst i) of
                       Inr _ \<Rightarrow> (True, emit [CallAddARPEntry ip (fst i), EntryAdded] s1)
                     | Inl what \<Rightarrow> (False, emit [CallAddARPEntry ip (fst i), Cerr what] s1)))
             else (True, s1));
          s3 = (if \<not> find then emit [MissingEntry] s2 else s2)
      in s3\<lparr>ignored := insert ip (ignored s3)\<rparr>)"

text \<open>One iteration of \<open>while( active )\<close>.\<close>

definition guard_step :: "byte_order \<Rightarrow> guard_state \<Rightarrow> guard_input \<Rightarrow> guard_state" where
  "guard_step bo s e =
     (case rd e of
        None \<Rightarrow> s
      | Some reply \<Rightarrow>
          if ntohs bo (opcode reply) = ARPOP_REPLY then
            (case table_at (table s) (hw_src reply) of
               None \<Rightarrow> emit [NewDevice] s
             | Some reg \<Rightarrow>
                 if reg \<noteq> ip_src reply then
                   if ip_src reply \<notin> ignored s
                   then guard_conflict e (hw_src reply) (ip_src reply) s
                   else s
                 else s)
          else s)"

text \<open>
  The iterations made while \<open>active\<close> is true, one for each input, and the whole of
  \<open>guard\<close>, which starts with nothing ignored.
\<close>

fun guard_loop :: "byte_order \<Rightarrow> guard_state \<Rightarrow> guard_input list \<Rightarrow> guard_state" where
  "guard_loop bo s [] = s"
| "guard_loop bo s (e # es) = guard_loop bo (guard_step bo s e) es"

definition guard :: "byte_order \<Rightarrow> ARPTable \<Rightarrow> guard_input list \<Rightarrow> guard_state" where
  "guard bo t es = guard_loop bo \<lparr>table = t, ignored = {}, trace = []\<rparr> es"

text \<open>An ARP reply from \<open>h\<close> that claims \<open>ip\<close>, as \<open>guard\<close> reads it.\<close>

definition reply_from :: "byte_order \<Rightarrow> HWAddr \<Rightarrow> u32 \<Rightarrow> guard_input \<Rightarrow> bool" where
  "reply_from bo h ip e \<longleftrightarrow>
     (case rd e of
        None \<Rightarrow> False
      | Some reply \<Rightarrow>
          ntohs bo (opcode reply) = ARPOP_REPLY \<and> hw_src reply = h \<and> ip_src reply = ip)"

text \<open>The reply conflicts with the table: the sender is recorded with another address.\<close>

definition conflict :: "ARPTable \<Rightarrow> HWAddr \<Rightarrow> u32 \<Rightarrow> bool" where
  "conflict t h ip \<longleftrightarrow> (case table_at t h of None \<Rightarrow> False | Some reg \<Rightarrow> reg \<noteq> ip)"

fun is_Poisoning :: "event \<Rightarrow> bool" where
  "is_Poisoning (Poisoning h ip) = True"
| "is_Poisoning _ = False"

fun is_CallAddARPEntry :: "event \<Rightarrow> bool" where
  "is_CallAddARPEntry (CallAddARPEntry ip h) = True"
| "is_CallAddARPEntry _ = False"

section \<open>Concrete inputs\<close>

text \<open>
  A little-endian host holds the address \<open>a.b.c.d\<close> as the 32-bit value whose
  lowest byte is \<open>a\<close>.
\<close>

definition ipv4 :: "byte_order \<Rightarrow> u8 \<Rightarrow> u8 \<Rightarrow> u8 \<Rightarrow> u8 \<Rightarrow> u32" where
  "ipv4 bo a b c d = mem_u32 bo [a, b, c, d]"

definition hw_AA :: HWAddr where
  "hw_AA = HWAddr 0xAA 0xAA 0xAA 0xAA 0xAA 0xAA"

definition hw_BB :: HWAddr where
  "hw_BB = HWAddr 0xBB 0xBB 0xBB 0xBB 0xBB 0xBB"

definition hw_local :: HWAddr where
  "hw_local = HWAddr 0x00 0x0c 0x29 0x0a 0x0b 0x05"

text \<open>An ARP reply sent by \<open>h\<close> to the local host, claiming \<open>ip\<close>.\<close>

definition arp_reply :: "byte_order \<Rightarrow> HWAddr \<Rightarrow> u32 \<Rightarrow> ARPFrame" where
  "arp_reply bo h ip = \<lparr>
     eth_dst = hw_local,
     eth_src = h,
     eth_ethertype = htons bo ETH_P_ARP,
     hw_type = htons bo ARPHRD_ETHER,
     protocol = htons bo ETH_P_IP,
     hw_len = 6,
     proto_len = 4,
     opcode = htons bo ARPOP_REPLY,
     hw_src = h,
     ip_src = ip,
     hw_dst = hw_local,
     ip_dst = ipv4 bo 10 0 0 1\<rparr>"

text \<open>The table \<open>{AA:AA:AA:AA:AA:AA \<rightarrow> 10.0.0.5, BB:BB:BB:BB:BB:BB \<rightarrow> 10.0.0.9}\<close>.\<close>

definition table_AB :: ARPTable where
  "table_AB =
     table_insert hw_AA (ipv4 LittleEndian 10 0 0 5)
       (table_insert hw_BB (ipv4 LittleEndian 10 0 0 9) [])"

definition state_AB :: guard_state where
  "state_AB = \<lparr>table = table_AB, ignored = {}, trace = []\<rparr>"

text \<open>\<open>AA:AA:AA:AA:AA:AA\<close> claims 10.0.0.9; the operator's answer is \<open>a\<close>.\<close>

definition input_AA_9 :: "string \<Rightarrow> string option \<Rightarrow> guard_input" where
  "input_AA_9 a err =
     \<lparr>rd = Some (arp_reply LittleEndian hw_AA (ipv4 LittleEndian 10 0 0 9)),
      answer = a, ioctl_error = err\<rparr>"

text \<open>\<open>BB:BB:BB:BB:BB:BB\<close> claims 10.0.0.7, which the table does not hold.\<close>

definition input_BB_7 :: "string \<Rightarrow> guard_input" where
  "input_BB_7 a =
     \<lparr>rd = Some (arp_reply LittleEndian hw_BB (ipv4 LittleEndian 10 0 0 7)),
      answer = a, ioctl_error = None\<rparr>"

definition input_AA_7 :: "string \<Rightarrow> guard_input" where
  "input_AA_7 a =
     \<lparr>rd = Some (arp_reply LittleEndian hw_AA (ipv4 LittleEndian 10 0 0 7)),
      answer = a, ioctl_error = None\<rparr>"

text \<open>
  The interface 192.168.0.5 with netmask 255.255.254.0 on a little-endian host:
  the first host is 192.168.0.1 and the broadcast address is 192.168.1.255.
\<close>

definition ld_23 :: LocalData where
  "ld_23 = \<lparr>
     ifindex = 2,
     ipAddr = ipv4 LittleEndian 192 168 0 5,
     firstHost = ipv4 LittleEndian 192 168 0 1,
     lastHost = ipv4 LittleEndian 192 168 1 255,
     hwAddr = hw_local\<rparr>"

text \<open>
  A range of two hosts on a little-endian host: 10.0.0.8 and 10.0.0.9, the bound being
  10.0.0.10.
\<close>

definition ld_small :: LocalData where
  "ld_small = \<lparr>
     ifindex = 2,
     ipAddr = ipv4 LittleEndian 10 0 0 5,
     firstHost = ipv4 LittleEndian 10 0 0 8,
     lastHost = ipv4 LittleEndian 10 0 0 10,
     hwAddr = hw_local\<rparr>"

section \<open>Hardware addresses as keys\<close>

lemma memcmp_same: "memcmp xs xs = 0"
  by (induction xs) simp_all

lemma memcmp_equiv:
  "length xs = length ys \<Longrightarrow> \<not> memcmp xs ys < 0 \<Longrightarrow> \<not> memcmp ys xs < 0 \<Longrightarrow> xs = ys"
proof (induction xs ys rule: list_induct2)
  case Nil
  then show ?case by simp
next
  case (Cons x xs y ys)
  then show ?case by (auto split: if_splits)
qed

lemma hw_inject: "hw x = hw y \<Longrightarrow> x = y"
  by (cases x; cases y) simp

lemma length_hw: "length (hw x) = 6"
  by (cases x) simp

lemma hw_less_irrefl: "\<not> hw_less k k"
  by (simp add: hw_less_def memcmp_same)

text \<open>Two keys that the map does not tell apart are the same hardware address.\<close>

lemma hw_equiv_iff: "\<not> hw_less a k \<and> \<not> hw_less k a \<longleftrightarrow> a = k"
proof
  assume "\<not> hw_less a k \<and> \<not> hw_less k a"
  then have "hw a = hw k"
    using memcmp_equiv [of "hw a" "hw k"] by (simp add: hw_less_def length_hw)
  then show "a = k" by (rule hw_inject)
next
  assume "a = k"
  then show "\<not> hw_less a k \<and> \<not> hw_less k a" by (simp add: hw_less_irrefl)
qed

lemma table_at_map_of: "table_at t k = map_of t k"
proof (induction t)
  case Nil
  then show ?case by simp
next
  case (Cons p t)
  obtain a b where p: "p = (a, b)" by (cases p)
  show ?case
    using Cons.IH hw_equiv_iff [of a k] by (cases "a = k") (auto simp add: p)
qed

lemma table_at_insert:
  "table_at (table_insert k v t) k' = (if k' = k then Some v else table_at t k')"
proof (induction t)
  case Nil
  then show ?case by (simp add: hw_equiv_iff)
next
  case (Cons p t)
  obtain a b where p: "p = (a, b)" by (cases p)
  show ?case
    using Cons.IH hw_equiv_iff [of a k] hw_less_irrefl [of k]
    by (auto simp add: p table_at_map_of)
qed

text \<open>
  The order is transitive, so a table that is in order stays in order when an entry is
  put in, and the entry takes the place of the one with the same key.
\<close>

lemma memcmp_trans: "memcmp xs ys < 0 \<Longrightarrow> memcmp ys zs < 0 \<Longrightarrow> memcmp xs zs < 0"
proof (induction xs arbitrary: ys zs)
  case Nil
  then show ?case by simp
next
  case (Cons a as)
  from Cons.prems obtain b bs where ys: "ys = b # bs" by (cases ys) simp_all
  from Cons.prems ys obtain c cs where zs: "zs = c # cs" by (cases zs) simp_all
  show ?case
    using Cons.prems Cons.IH [of bs cs] unfolding ys zs
    by (auto split: if_splits)
qed

lemma hw_less_trans: "hw_less a b \<Longrightarrow> hw_less b c \<Longrightarrow> hw_less a c"
  unfolding hw_less_def by (rule memcmp_trans)

lemma table_insert_set:
  "sorted_wrt hw_less (map fst t) \<Longrightarrow>
     set (table_insert k v t) = insert (k, v) {p \<in> set t. fst p \<noteq> k}"
proof (induction t)
  case Nil
  then show ?case by simp
next
  case (Cons p t)
  obtain a b where p: "p = (a, b)" by (cases p)
  from Cons.prems have above: "\<forall>q\<in>set t. hw_less a (fst q)" and sorted: "sorted_wrt hw_less (map fst t)"
    by (simp_all add: p)
  consider "hw_less k a" | "\<not> hw_less k a" "hw_less a k" | "a = k"
    using hw_equiv_iff [of a k] by blast
  then show ?case
  proof cases
    case 1
    then have "\<forall>q\<in>set (p # t). fst q \<noteq> k"
      using above hw_less_trans [of k a] hw_less_irrefl [of k] by (auto simp add: p)
    then have "{q \<in> set (p # t). fst q \<noteq> k} = set (p # t)" by blast
    then show ?thesis using 1 by (simp add: p)
  next
    case 2
    then have "a \<noteq> k" using hw_less_irrefl by blast
    then show ?thesis using 2 Cons.IH [OF sorted] by (auto simp add: p)
  next
    case 3
    then have "\<forall>q\<in>set t. fst q \<noteq> k"
      using above hw_less_irrefl [of k] by auto
    then have "{q \<in> set (p # t). fst q \<noteq> k} = set t" using 3 by (auto simp add: p)
    then show ?thesis using 3 hw_less_irrefl [of k] by (simp add: p)
  qed
qed

lemma table_insert_sorted:
  "sorted_wrt hw_less (map fst t) \<Longrightarrow> sorted_wrt hw_less (map fst (table_insert k v t))"
proof (induction t)
  case Nil
  then show ?case by simp
next
  case (Cons p t)
  obtain a b where p: "p = (a, b)" by (cases p)
  from Cons.prems have above: "\<forall>q\<in>set t. hw_less a (fst q)" and sorted: "sorted_wrt hw_less (map fst t)"
    by (simp_all add: p)
  consider "hw_less k a" | "\<not> hw_less k a" "hw_less a k" | "a = k"
    using hw_equiv_iff [of a k] by blast
  then show ?case
  proof cases
    case 1
    then show ?thesis
      using Cons.prems above hw_less_trans [of k a] by (auto simp add: p)
  next
    case 2
    have "\<forall>q\<in>set (table_insert k v t). hw_less a (fst q)"
      using above 2 by (auto simp add: table_insert_set [OF sorted])
    then show ?thesis using 2 Cons.IH [OF sorted] by (simp add: p)
  next
    case 3
    then show ?thesis using Cons.prems hw_less_irrefl [of k] by (simp add: p)
  qed
qed

section \<open>Formatting a hardware address\<close>

text \<open>
  C6. \<open>HWAddr::toString\<close> is to give the canonical form \<open>xx:xx:xx:xx:xx:xx\<close>, every
  byte as two hexadecimal digits. The field width of 2 set before the loop holds for the
  first insertion only, and a second \<open>0\<close> is appended after every zero byte: for
  \<open>00:0c:29:0a:0b:05\<close> the function returns \<open>000:c:29:a:b:5\<close>.
\<close>

theorem toString_not_canonical:
  "toString hw_local = ''000:c:29:a:b:5'' \<and> canonical hw_local = ''00:0c:29:0a:0b:05''"
  by (simp add: hw_local_def toString_def toString_byte_def put_int_def put_char_def put_def
      hex_digits.simps hex_digit_def MAC_ADDR_LEN_def hex2_def)

section \<open>The range of hosts\<close>

text \<open>
  When \<open>host\<close> meets the bound after \<open>n\<close> steps and not before, the loop returns,
  given more fuel than \<open>n\<close>, and the hosts it has tried are the \<open>n\<close> addresses
  from \<open>host\<close> on, one step apart, the bound left out; none when \<open>host\<close> is the bound.
\<close>

lemma scan_loop_hosts:
  "\<forall>k<n. host + of_nat k * IP_ONE bo \<noteq> lastHost ld \<Longrightarrow>
   host + of_nat n * IP_ONE bo = lastHost ld \<Longrightarrow> n < fuel \<Longrightarrow>
     \<exists>t written. scan_loop bo ld fuel host tab rs = Some (t, written)
       \<and> map ip_dst written = map (\<lambda>k. host + of_nat k * IP_ONE bo) [0..<n]"
proof (induction n arbitrary: host fuel tab rs)
  case 0
  then obtain f where "fuel = Suc f" by (cases fuel) simp_all
  with 0 show ?case by simp
next
  case (Suc n)
  from Suc.prems(3) obtain f where f: "fuel = Suc f" and nf: "n < f"
    by (cases fuel) simp_all
  from Suc.prems(1) have ne: "host \<noteq> lastHost ld"
    by (metis add.right_neutral mult_zero_left of_nat_0 zero_less_Suc)
  let ?host = "host + IP_ONE bo"
  obtain tab' rs' where r: "scan_read_loop bo MAX_TRIES_FOR_RESOLV host tab rs = (tab', rs')"
    by (cases "scan_read_loop bo MAX_TRIES_FOR_RESOLV host tab rs")
  have shift: "?host + of_nat k * IP_ONE bo = host + of_nat (Suc k) * IP_ONE bo" for k
    by (simp add: algebra_simps)
  have "\<forall>k<n. ?host + of_nat k * IP_ONE bo \<noteq> lastHost ld"
    using Suc.prems(1) by (simp only: shift) auto
  moreover have "?host + of_nat n * IP_ONE bo = lastHost ld"
    using Suc.prems(2) by (simp only: shift)
  ultimately obtain t written where
    IH: "scan_loop bo ld f ?host tab' rs' = Some (t, written)"
      "map ip_dst written = map (\<lambda>k. ?host + of_nat k * IP_ONE bo) [0..<n]"
    using Suc.IH [OF _ _ nf] by blast
  have "map (\<lambda>k. host + of_nat k * IP_ONE bo) [0..<Suc n] =
      host # map (\<lambda>k. ?host + of_nat k * IP_ONE bo) [0..<n]"
    by (simp only: shift upt_conv_Cons [OF zero_less_Suc] map_Suc_upt [symmetric] list.map)
      (simp add: comp_def)
  then show ?case
    using ne r IH by (simp add: f request_def)
qed

lemma IP_ONE_LittleEndian: "IP_ONE LittleEndian = 2 ^ 24"
  by (simp add: IP_ONE_def htonl_def bswap32_def)

text \<open>
  On a little-endian host the step changes the last octet of the address only: the low
  24 bits of \<open>host\<close>, which are its first three octets, stay as they are.
\<close>

lemma take_bit_24_step: "take_bit 24 (host + IP_ONE LittleEndian) = take_bit 24 host"
proof -
  have d: "(2 ^ 24 :: int) dvd 2 ^ 32"
    by (rule le_imp_power_dvd) simp
  have "uint (take_bit 24 (host + (2 ^ 24 :: u32))) = uint (host + (2 ^ 24 :: u32)) mod 2 ^ 24"
    by (simp only: unsigned_take_bit_eq take_bit_eq_mod [where ?'a = int])
  also have "uint (host + (2 ^ 24 :: u32)) = (uint host + 2 ^ 24) mod 2 ^ 32"
    by (simp add: uint_word_ariths)
  also have "((uint host + 2 ^ 24) mod 2 ^ 32) mod 2 ^ 24 = (uint host + 2 ^ 24) mod 2 ^ 24"
    using d by (rule mod_mod_cancel)
  also have "\<dots> = uint host mod 2 ^ 24"
    by simp
  also have "\<dots> = uint (take_bit 24 host)"
    by (simp only: unsigned_take_bit_eq take_bit_eq_mod [where ?'a = int])
  finally have "take_bit 24 (host + (2 ^ 24 :: u32)) = take_bit 24 host"
    by (rule word_uint_eqI)
  then show ?thesis by (simp only: IP_ONE_LittleEndian)
qed

lemma scan_loop_never_ends:
  "take_bit 24 host \<noteq> take_bit 24 (lastHost ld) \<Longrightarrow>
     scan_loop LittleEndian ld fuel host t rs = None"
proof (induction fuel arbitrary: host t rs)
  case 0
  then show ?case by simp
next
  case (Suc fuel)
  from Suc.prems have ne: "host \<noteq> lastHost ld" by auto
  from Suc.prems have "take_bit 24 (host + IP_ONE LittleEndian) \<noteq> take_bit 24 (lastHost ld)"
    by (simp add: take_bit_24_step)
  then have "scan_loop LittleEndian ld fuel (host + IP_ONE LittleEndian) t' rs' = None" for t' rs'
    by (rule Suc.IH)
  then show ?case using ne by (simp split: prod.splits)
qed

lemma ipv4_LittleEndian_values:
  "ipv4 LittleEndian 192 168 0 1 = 0x0100A8C0"
  "ipv4 LittleEndian 192 168 1 255 = 0xFF01A8C0"
  by (simp_all add: ipv4_def mem_u32_def)

text \<open>
  C4. The loop over the hosts is to go from \<open>firstHost\<close> up to \<open>lastHost\<close> in steps
  of one address and to end there. It adds \<open>htonl(1)\<close> to the address in network byte
  order, which on a little-endian host never carries out of the last octet: from
  192.168.0.1 with the bound 192.168.1.255 the loop goes back to 192.168.0.0 after
  192.168.0.255 and never meets the bound. Whatever the fuel and whatever is read,
  \<open>scan\<close> does not return.
\<close>

theorem scan_subnet_23_never_returns: "scan LittleEndian ld_23 fuel rs = None"
  unfolding scan_def
  by (rule scan_loop_never_ends) (simp add: ld_23_def ipv4_LittleEndian_values)

section \<open>Frames in memory\<close>

lemma mem_u16_u16_mem: "mem_u16 bo (u16_mem bo x) = x"
  unfolding mem_u16_def u16_mem_def
  by (cases bo; simp; rule bit_word_eqI) (auto simp add: bit_simps)

lemma or_bytes_u32:
  "or (ucast (ucast x :: u8))
     (or (push_bit 8 (ucast (ucast (drop_bit 8 x) :: u8)))
       (or (push_bit 16 (ucast (ucast (drop_bit 16 x) :: u8)))
           (push_bit 24 (ucast (ucast (drop_bit 24 x) :: u8))))) = (x :: u32)"
  (is "?w = x")
proof (rule bit_word_eqI)
  fix n assume "n < LENGTH(32)"
  then have n: "n < 32" by simp
  consider "n < 8" | "8 \<le> n" "n < 16" | "16 \<le> n" "n < 24" | "24 \<le> n" "n < 32"
    using n by linarith
  then show "bit ?w n = bit x n"
    by cases (auto simp add: bit_simps)
qed

lemma mem_u32_u32_mem: "mem_u32 bo (u32_mem bo x) = x"
  unfolding mem_u32_def u32_mem_def using or_bytes_u32 [of x] by (cases bo) simp_all

lemma hw_of_mem_hw: "hw_of_mem (hw x) = x"
  by (cases x) (simp add: hw_of_mem_def)

lemma length_u16_mem: "length (u16_mem bo x) = 2"
  by (cases bo) (simp_all add: u16_mem_def)

lemma length_u32_mem: "length (u32_mem bo x) = 4"
  by (cases bo) (simp_all add: u32_mem_def)

lemma length_frame_mem: "length (frame_mem bo f) = sizeof_ARPFrame"
  by (simp add: frame_mem_def sizeof_ARPFrame_def length_hw length_u16_mem length_u32_mem)

lemma mem_frame_frame_mem: "mem_frame bo (frame_mem bo f) = f"
proof -
  have "mem_frame bo (frame_mem bo f) = \<lparr>
        eth_dst = eth_dst f, eth_src = eth_src f, eth_ethertype = eth_ethertype f,
        hw_type = hw_type f, protocol = protocol f, hw_len = hw_len f,
        proto_len = proto_len f, opcode = opcode f, hw_src = hw_src f, ip_src = ip_src f,
        hw_dst = hw_dst f, ip_dst = ip_dst f\<rparr>"
    unfolding mem_frame_def
    by (simp add: frame_mem_def length_hw length_u16_mem length_u32_mem nth_append
        hw_of_mem_hw mem_u16_u16_mem mem_u32_u32_mem)
  then show ?thesis by simp
qed

lemma frame_mem_not_Nil: "frame_mem bo f \<noteq> []"
  using length_frame_mem [of bo f] by (auto simp add: sizeof_ARPFrame_def)

text \<open>A whole frame replaces what \<open>reply\<close> held.\<close>

lemma read_frame_frame_mem: "read_frame bo reply (frame_mem bo f) = Some f"
  by (simp add: read_frame_def frame_mem_not_Nil length_frame_mem mem_frame_frame_mem)

lemma read_frame_Nil: "read_frame bo reply [] = None"
  by (simp add: read_frame_def)

text \<open>
  A short frame replaces the beginning only: six bytes change the Ethernet destination
  and leave the rest of \<open>reply\<close>.
\<close>

lemma read_frame_short: "read_frame bo reply (hw h) = Some (reply\<lparr>eth_dst := h\<rparr>)"
proof -
  have "take sizeof_ARPFrame (hw h) @ drop (length (hw h)) (frame_mem bo reply) =
      frame_mem bo (reply\<lparr>eth_dst := h\<rparr>)"
    by (simp add: frame_mem_def length_hw sizeof_ARPFrame_def)
  moreover have "hw h \<noteq> []"
    by (cases h) simp
  ultimately show ?thesis
    by (simp add: read_frame_def mem_frame_frame_mem)
qed

lemma receive_frames: "receive bo reply (map (frame_mem bo) fs) = map Some fs"
  by (induction fs arbitrary: reply) (simp_all add: read_frame_frame_mem)

lemma ntohs_htons: "ntohs bo (htons bo x) = x"
  unfolding ntohs_def htons_def bswap16_def
  by (cases bo; simp; rule bit_word_eqI) (auto simp add: bit_simps)

text \<open>Whatever the host, a 16-bit value passed through \<open>htons\<close> lies in memory high byte first.\<close>

lemma u16_mem_htons: "u16_mem bo (htons bo x) = [ucast (drop_bit 8 x), ucast x]"
  unfolding u16_mem_def htons_def bswap16_def
  apply (cases bo; simp)
  apply (rule conjI; rule bit_word_eqI)
   apply (auto simp add: bit_simps)
  done

text \<open>
  C7. Reading back the 42 bytes that \<open>scan\<close> writes for a request gives the frame
  again, whatever the variable read into held before: its sender hardware address is the local one, its sender protocol address the
  local address, its target protocol address the host asked for, and its opcode, taken
  through \<open>ntohs\<close>, is \<open>ARPOP_REQUEST\<close>. On the wire the first six bytes (the Ethernet
  destination) are \<open>ff\<close>, the six bytes of the target hardware address are 0, and the
  opcode is the two bytes 0, 1, on a host of either byte order.
\<close>

theorem request_round_trip:
  "read_frame bo reply (frame_mem bo (request bo ld host)) = Some (request bo ld host)
   \<and> hw_src (request bo ld host) = hwAddr ld
   \<and> ip_src (request bo ld host) = ipAddr ld
   \<and> ip_dst (request bo ld host) = host
   \<and> ntohs bo (opcode (request bo ld host)) = ARPOP_REQUEST
   \<and> take 6 (frame_mem bo (request bo ld host)) = replicate 6 0xff
   \<and> take 6 (drop 32 (frame_mem bo (request bo ld host))) = replicate 6 0
   \<and> take 2 (drop 20 (frame_mem bo (request bo ld host))) = [0, 1]"
proof -
  have wire: "take 6 (frame_mem bo (request bo ld host)) = replicate 6 0xff"
    "take 6 (drop 32 (frame_mem bo (request bo ld host))) = replicate 6 0"
    "take 2 (drop 20 (frame_mem bo (request bo ld host))) = [0, 1]"
    by (simp_all add: frame_mem_def request_def length_hw length_u16_mem length_u32_mem
        u16_mem_htons ARPOP_REQUEST_def numeral_eq_Suc)
  show ?thesis
    by (simp add: read_frame_frame_mem wire) (simp add: request_def ntohs_htons)
qed

section \<open>Resolving one host\<close>

lemma scan_read_loop_skip:
  "\<forall>f\<in>set fs. \<not> resolves bo host f \<Longrightarrow> int (length fs) < n \<Longrightarrow>
     scan_read_loop bo n host t (map Some fs @ rs) =
       scan_read_loop bo (n - int (length fs)) host t rs"
proof (induction fs arbitrary: n)
  case Nil
  then show ?case by simp
next
  case (Cons f fs)
  from Cons.prems have "n - 1 \<noteq> 0" and "int (length fs) < n - 1"
    by simp_all
  moreover from Cons.prems have "\<not> resolves bo host f" and "\<forall>f\<in>set fs. \<not> resolves bo host f"
    by simp_all
  ultimately show ?case
    using Cons.IH [of "n - 1"] by (simp add: algebra_simps)
qed

lemma scan_read_loop_exhaust:
  "\<forall>f\<in>set fs. \<not> resolves bo host f \<Longrightarrow> int (length fs) = n \<Longrightarrow> fs \<noteq> [] \<Longrightarrow>
     scan_read_loop bo n host t (map Some fs @ rs) = (t, rs)"
proof (induction fs arbitrary: n)
  case Nil
  then show ?case by simp
next
  case (Cons f fs)
  show ?case
  proof (cases "fs = []")
    case True
    with Cons.prems show ?thesis by simp
  next
    case False
    with Cons.prems have "n - 1 \<noteq> 0" and "int (length fs) = n - 1"
      by auto
    moreover from Cons.prems have "\<not> resolves bo host f" and "\<forall>f\<in>set fs. \<not> resolves bo host f"
      by simp_all
    ultimately show ?thesis
      using Cons.IH [of "n - 1"] False by simp
  qed
qed

lemma scan_read_loop_sorted:
  "sorted_wrt hw_less (map fst t) \<Longrightarrow>
     sorted_wrt hw_less (map fst (fst (scan_read_loop bo n host t rs)))"
  by (induction bo n host t rs rule: scan_read_loop.induct) (simp_all add: table_insert_sorted)

lemma scan_loop_sorted:
  "sorted_wrt hw_less (map fst t) \<Longrightarrow> scan_loop bo ld fuel host t rs = Some (t', written) \<Longrightarrow>
     sorted_wrt hw_less (map fst t')"
proof (induction fuel arbitrary: host t rs t' written)
  case 0
  then show ?case by simp
next
  case (Suc fuel)
  show ?case
  proof (cases "host = lastHost ld")
    case True
    with Suc.prems show ?thesis by simp
  next
    case False
    obtain t1 rs1 where r: "scan_read_loop bo MAX_TRIES_FOR_RESOLV host t rs = (t1, rs1)"
      by (cases "scan_read_loop bo MAX_TRIES_FOR_RESOLV host t rs")
    have s1: "sorted_wrt hw_less (map fst t1)"
      using scan_read_loop_sorted [OF Suc.prems(1), of bo MAX_TRIES_FOR_RESOLV host rs] r by simp
    from Suc.prems(2) False r obtain w where
      "scan_loop bo ld fuel (host + IP_ONE bo) t1 rs1 = Some (t', w)"
      by (auto split: prod.splits)
    then show ?thesis using Suc.IH [OF s1] by blast
  qed
qed

text \<open>
  C3. \<open>scan\<close> goes through the hosts from \<open>firstHost\<close> with an empty table and all
  that is read. For each host other than the bound it runs the read loop with 5 fresh
  attempts on the table as it stands and on what is left to read, writes one request,
  and goes on with the table and the reads the loop leaves; at the bound it returns the
  table. While \<open>host\<close> is being resolved, let the frames \<open>fs\<close> be read first, none of
  them a reply whose sender protocol address is \<open>host\<close>. If fewer than 5 such frames
  came, a reply from \<open>host\<close> read next is accepted: its sender hardware address is
  entered in the table with its sender protocol address. If fewer than 5 came and the
  next read times out, or nothing more arrives, the loop ends at once with the table as it
  was. If 5 came, the loop ends with the table as it was, whatever is read afterwards.
  No case raises an error. Entering an address sets its key and leaves the other keys
  as they were; in a table that is in order, as every table of \<open>scan\<close> is, the entries
  afterwards are the new one and the old ones with another key, still in order.
\<close>

theorem scan_read_loop_resolution:
  assumes "\<forall>f\<in>set fs. \<not> resolves bo host f"
  shows "MAX_TRIES_FOR_RESOLV = 5
    \<and> scan bo ld fuel reads = scan_loop bo ld fuel (firstHost ld) [] reads
    \<and> (host \<noteq> lastHost ld \<longrightarrow>
         scan_loop bo ld (Suc fuel) host t reads =
           (case scan_read_loop bo MAX_TRIES_FOR_RESOLV host t reads of
              (t', rs') \<Rightarrow>
                map_option (\<lambda>(t'', written). (t'', request bo ld host # written))
                  (scan_loop bo ld fuel (host + IP_ONE bo) t' rs')))
    \<and> scan_loop bo ld (Suc fuel) (lastHost ld) t reads = Some (t, [])
    \<and> (length fs < 5 \<and> resolves bo host reply \<longrightarrow>
         scan_read_loop bo MAX_TRIES_FOR_RESOLV host t (map Some fs @ Some reply # rs) =
           (table_insert (hw_src reply) (ip_src reply) t, rs))
    \<and> (length fs < 5 \<longrightarrow>
         scan_read_loop bo MAX_TRIES_FOR_RESOLV host t (map Some fs @ None # rs) = (t, rs))
    \<and> (length fs < 5 \<longrightarrow>
         scan_read_loop bo MAX_TRIES_FOR_RESOLV host t (map Some fs) = (t, []))
    \<and> (length fs = 5 \<longrightarrow>
         scan_read_loop bo MAX_TRIES_FOR_RESOLV host t (map Some fs @ rs) = (t, rs))
    \<and> (resolves bo host reply \<longleftrightarrow> ntohs bo (opcode reply) = ARPOP_REPLY \<and> ip_src reply = host)
    \<and> table_at (table_insert (hw_src reply) (ip_src reply) t) k =
         (if k = hw_src reply then Some (ip_src reply) else table_at t k)
    \<and> (sorted_wrt hw_less (map fst t) \<longrightarrow>
         set (table_insert (hw_src reply) (ip_src reply) t) =
           insert (hw_src reply, ip_src reply) {p \<in> set t. fst p \<noteq> hw_src reply}
         \<and> sorted_wrt hw_less (map fst (table_insert (hw_src reply) (ip_src reply) t))
         \<and> sorted_wrt hw_less
             (map fst (fst (scan_read_loop bo MAX_TRIES_FOR_RESOLV host t reads))))
    \<and> (scan bo ld fuel reads = Some (result, sent) \<longrightarrow> sorted_wrt hw_less (map fst result))"
proof -
  have skip: "scan_read_loop bo 5 host t (map Some fs @ rs') =
      scan_read_loop bo (5 - int (length fs)) host t rs'" if "length fs < 5" for rs'
    using assms that by (intro scan_read_loop_skip) simp_all
  have a: "scan_read_loop bo 5 host t (map Some fs @ Some reply # rs) =
      (table_insert (hw_src reply) (ip_src reply) t, rs)"
    if "length fs < 5" "resolves bo host reply"
    using that by (simp add: skip)
  have b: "scan_read_loop bo 5 host t (map Some fs @ None # rs) = (t, rs)" if "length fs < 5"
    using that by (simp add: skip)
  have c: "scan_read_loop bo 5 host t (map Some fs) = (t, [])" if "length fs < 5"
    using that skip [of "[]"] by simp
  have d: "scan_read_loop bo 5 host t (map Some fs @ rs) = (t, rs)" if "length fs = 5"
    using assms that by (intro scan_read_loop_exhaust) auto
  have e: "sorted_wrt hw_less (map fst result)" if "scan bo ld fuel reads = Some (result, sent)"
    using that scan_loop_sorted [of "[]" bo ld fuel "firstHost ld" reads result sent]
    by (simp add: scan_def)
  have loops: "MAX_TRIES_FOR_RESOLV = 5
    \<and> (length fs < 5 \<and> resolves bo host reply \<longrightarrow>
         scan_read_loop bo MAX_TRIES_FOR_RESOLV host t (map Some fs @ Some reply # rs) =
           (table_insert (hw_src reply) (ip_src reply) t, rs))
    \<and> (length fs < 5 \<longrightarrow>
         scan_read_loop bo MAX_TRIES_FOR_RESOLV host t (map Some fs @ None # rs) = (t, rs))
    \<and> (length fs < 5 \<longrightarrow>
         scan_read_loop bo MAX_TRIES_FOR_RESOLV host t (map Some fs) = (t, []))
    \<and> (length fs = 5 \<longrightarrow>
         scan_read_loop bo MAX_TRIES_FOR_RESOLV host t (map Some fs @ rs) = (t, rs))"
    using a b c d by (simp add: MAX_TRIES_FOR_RESOLV_def)
  have tables: "sorted_wrt hw_less (map fst t) \<longrightarrow>
         set (table_insert (hw_src reply) (ip_src reply) t) =
           insert (hw_src reply, ip_src reply) {p \<in> set t. fst p \<noteq> hw_src reply}
         \<and> sorted_wrt hw_less (map fst (table_insert (hw_src reply) (ip_src reply) t))
         \<and> sorted_wrt hw_less
             (map fst (fst (scan_read_loop bo MAX_TRIES_FOR_RESOLV host t reads)))"
    by (simp add: table_insert_set table_insert_sorted scan_read_loop_sorted)
  have steps: "scan bo ld fuel reads = scan_loop bo ld fuel (firstHost ld) [] reads
    \<and> (host \<noteq> lastHost ld \<longrightarrow>
         scan_loop bo ld (Suc fuel) host t reads =
           (case scan_read_loop bo MAX_TRIES_FOR_RESOLV host t reads of
              (t', rs') \<Rightarrow>
                map_option (\<lambda>(t'', written). (t'', request bo ld host # written))
                  (scan_loop bo ld fuel (host + IP_ONE bo) t' rs')))
    \<and> scan_loop bo ld (Suc fuel) (lastHost ld) t reads = Some (t, [])"
    by (simp add: scan_def)
  show ?thesis
    using loops tables steps e by (simp add: resolves_def table_at_insert)
qed

section \<open>One iteration of the guard\<close>

lemma guard_step_reply:
  "reply_from bo h ip e \<Longrightarrow> conflict (table s) h ip \<Longrightarrow>
     guard_step bo s e = (if ip \<in> ignored s then s else guard_conflict e h ip s)"
  by (auto simp add: reply_from_def conflict_def guard_step_def split: option.splits)

lemma guard_conflict_declined:
  "answer e = ''N'' \<or> answer e = ''n'' \<Longrightarrow>
     guard_conflict e h ip s =
       s\<lparr>ignored := insert ip (ignored s), trace := trace s @ [Poisoning h ip]\<rparr>"
  by (auto simp add: guard_conflict_def emit_def)

lemma guard_conflict_missing:
  "answer e \<noteq> ''N'' \<Longrightarrow> answer e \<noteq> ''n'' \<Longrightarrow> List.find (\<lambda>i. snd i = ip) (table s) = None \<Longrightarrow>
     guard_conflict e h ip s =
       s\<lparr>ignored := insert ip (ignored s), trace := trace s @ [Poisoning h ip, MissingEntry]\<rparr>"
  by (simp add: guard_conflict_def emit_def)

lemma guard_conflict_added:
  "answer e \<noteq> ''N'' \<Longrightarrow> answer e \<noteq> ''n'' \<Longrightarrow> List.find (\<lambda>i. snd i = ip) (table s) = Some i \<Longrightarrow>
   ioctl_error e = None \<Longrightarrow>
     guard_conflict e h ip s =
       s\<lparr>ignored := insert ip (ignored s),
         trace := trace s @ [Poisoning h ip, CallAddARPEntry ip (fst i), EntryAdded]\<rparr>"
  by (simp add: guard_conflict_def emit_def addARPEntry_def)

lemma guard_conflict_failed:
  "answer e \<noteq> ''N'' \<Longrightarrow> answer e \<noteq> ''n'' \<Longrightarrow> List.find (\<lambda>i. snd i = ip) (table s) = Some i \<Longrightarrow>
   ioctl_error e = Some msg \<Longrightarrow>
     guard_conflict e h ip s =
       s\<lparr>ignored := insert ip (ignored s),
         trace := trace s @ [Poisoning h ip, CallAddARPEntry ip (fst i),
           Cerr (''Add ARP entry: '' @ msg), MissingEntry]\<rparr>"
  by (simp add: guard_conflict_def emit_def addARPEntry_def)

lemma guard_conflict_table: "table (guard_conflict e h ip s) = table s"
  by (simp add: guard_conflict_def emit_def Let_def split: option.splits sum.splits)

lemma guard_conflict_ignored: "ignored (guard_conflict e h ip s) = insert ip (ignored s)"
  by (simp add: guard_conflict_def emit_def Let_def split: option.splits sum.splits)

lemma guard_conflict_trace:
  "\<exists>evs. trace (guard_conflict e h ip s) = trace s @ Poisoning h ip # evs
     \<and> filter is_Poisoning evs = []"
  by (simp add: guard_conflict_def emit_def Let_def split: option.splits sum.splits)

lemma guard_step_table: "table (guard_step bo s e) = table s"
  by (simp add: guard_step_def guard_conflict_table emit_def split: option.splits)

lemma guard_step_ignored: "ignored s \<subseteq> ignored (guard_step bo s e)"
  by (auto simp add: guard_step_def guard_conflict_ignored emit_def split: option.splits)

lemma guard_loop_table: "table (guard_loop bo s es) = table s"
  by (induction es arbitrary: s) (simp_all add: guard_step_table)

lemma guard_loop_ignored: "ignored s \<subseteq> ignored (guard_loop bo s es)"
proof (induction es arbitrary: s)
  case Nil
  then show ?case by simp
next
  case (Cons e es)
  have "ignored s \<subseteq> ignored (guard_step bo s e)" by (rule guard_step_ignored)
  also have "\<dots> \<subseteq> ignored (guard_loop bo (guard_step bo s e) es)" by (rule Cons.IH)
  finally show ?case by simp
qed

lemma guard_loop_append: "guard_loop bo s (es @ es') = guard_loop bo (guard_loop bo s es) es'"
  by (induction es arbitrary: s) simp_all

lemma find_recorded:
  "List.find (\<lambda>i. snd i = ip) t = None \<longleftrightarrow> (\<forall>k. (k, ip) \<notin> set t)"
  by (auto simp add: find_None_iff)

lemma find_recorded_Some:
  "List.find (\<lambda>i. snd i = ip) t = Some i \<Longrightarrow> i \<in> set t \<and> snd i = ip"
  by (auto simp add: find_Some_iff)

text \<open>
  C1. A reply from \<open>h\<close> claims \<open>ip\<close>, the table records \<open>h\<close> with another address,
  \<open>ip\<close> is not ignored, and the answer is neither \<open>N\<close> nor \<open>n\<close>. If an entry of the
  table records \<open>ip\<close>, \<open>addARPEntry\<close> is called once, with \<open>ip\<close> and the hardware
  address of the first such entry in the order of the table. If no entry records \<open>ip\<close>,
  \<open>addARPEntry\<close> is not called and the missing entry is reported. Either way \<open>ip\<close>
  is added to the ignored addresses.
\<close>

theorem guard_accepted:
  assumes "reply_from bo h ip e" and "conflict (table s) h ip" and "ip \<notin> ignored s"
    and "answer e \<noteq> ''N''" and "answer e \<noteq> ''n''"
  shows "((\<exists>k. (k, ip) \<in> set (table s)) \<longrightarrow>
            (\<exists>k evs. (k, ip) \<in> set (table s)
               \<and> List.find (\<lambda>i. snd i = ip) (table s) = Some (k, ip)
               \<and> trace (guard_step bo s e) =
                   trace s @ [Poisoning h ip, CallAddARPEntry ip k] @ evs
               \<and> filter is_CallAddARPEntry evs = []))
       \<and> ((\<forall>k. (k, ip) \<notin> set (table s)) \<longrightarrow>
            trace (guard_step bo s e) = trace s @ [Poisoning h ip, MissingEntry])
       \<and> ignored (guard_step bo s e) = insert ip (ignored s)"
proof -
  have step: "guard_step bo s e = guard_conflict e h ip s"
    using guard_step_reply [OF assms(1,2)] assms(3) by simp
  have found: "\<exists>k evs. (k, ip) \<in> set (table s)
               \<and> List.find (\<lambda>i. snd i = ip) (table s) = Some (k, ip)
               \<and> trace (guard_step bo s e) =
                   trace s @ [Poisoning h ip, CallAddARPEntry ip k] @ evs
               \<and> filter is_CallAddARPEntry evs = []"
    if "\<exists>k. (k, ip) \<in> set (table s)"
  proof -
    from that obtain i where i: "List.find (\<lambda>i. snd i = ip) (table s) = Some i"
      using find_recorded [of ip "table s"] by (cases "List.find (\<lambda>i. snd i = ip) (table s)") auto
    then have mem: "i \<in> set (table s)" and ip: "snd i = ip"
      using find_recorded_Some [of ip "table s" i] by simp_all
    obtain k where k: "i = (k, ip)" using ip by (cases i) simp
    show ?thesis
    proof (cases "ioctl_error e")
      case None
      then have "trace (guard_step bo s e) =
          trace s @ [Poisoning h ip, CallAddARPEntry ip k] @ [EntryAdded]"
        using assms i k by (simp add: step guard_conflict_added)
      then show ?thesis using mem i k by (intro exI [of _ k] exI [of _ "[EntryAdded]"]) simp
    next
      case (Some msg)
      then have "trace (guard_step bo s e) =
          trace s @ [Poisoning h ip, CallAddARPEntry ip k] @ [Cerr (''Add ARP entry: '' @ msg), MissingEntry]"
        using assms i k by (simp add: step guard_conflict_failed)
      then show ?thesis using mem i k
        by (intro exI [of _ k] exI [of _ "[Cerr (''Add ARP entry: '' @ msg), MissingEntry]"]) simp
    qed
  qed
  have missing: "trace (guard_step bo s e) = trace s @ [Poisoning h ip, MissingEntry]"
    if "\<forall>k. (k, ip) \<notin> set (table s)"
    using that assms find_recorded [of ip "table s"] by (simp add: step guard_conflict_missing)
  show ?thesis
    using found missing by (simp add: step guard_conflict_ignored)
qed


text \<open>
  C2. A reply from \<open>h\<close> claims \<open>ip\<close> and the table records \<open>h\<close> with another
  address. If \<open>ip\<close> is not ignored yet, handling the reply twice is the same as handling
  it once: the operator is told of the poisoning and asked exactly once, and the
  second reply adds nothing. If \<open>ip\<close> is ignored already, the reply changes nothing: no
  question, no call of \<open>addARPEntry\<close>, no message.
\<close>

theorem guard_idempotent:
  assumes "reply_from bo h ip e" and "conflict (table s) h ip" and "rd e' = rd e"
  shows "(ip \<notin> ignored s \<longrightarrow>
            guard_loop bo s [e, e'] = guard_step bo s e
            \<and> length (filter is_Poisoning (trace (guard_loop bo s [e, e']))) =
                Suc (length (filter is_Poisoning (trace s)))
            \<and> ip \<in> ignored (guard_step bo s e))
       \<and> (ip \<in> ignored s \<longrightarrow> guard_step bo s e = s)"
proof (intro conjI impI)
  assume "ip \<in> ignored s"
  then show "guard_step bo s e = s"
    using guard_step_reply [OF assms(1,2)] by simp
next
  assume new: "ip \<notin> ignored s"
  let ?s' = "guard_conflict e h ip s"
  have step: "guard_step bo s e = ?s'"
    using guard_step_reply [OF assms(1,2)] new by simp
  have "reply_from bo h ip e'"
    using assms(1,3) by (simp add: reply_from_def)
  moreover have "conflict (table ?s') h ip"
    using assms(2) by (simp add: guard_conflict_table)
  ultimately have "guard_step bo ?s' e' = (if ip \<in> ignored ?s' then ?s' else guard_conflict e' h ip ?s')"
    by (rule guard_step_reply)
  then have again: "guard_step bo ?s' e' = ?s'"
    by (simp add: guard_conflict_ignored)
  show twice: "guard_loop bo s [e, e'] = guard_step bo s e"
    by (simp add: step again)
  obtain evs where evs: "trace ?s' = trace s @ Poisoning h ip # evs"
    "filter is_Poisoning evs = []"
    using guard_conflict_trace by blast
  show "length (filter is_Poisoning (trace (guard_loop bo s [e, e']))) =
      Suc (length (filter is_Poisoning (trace s)))"
    by (simp only: twice step evs) (simp add: evs(2))
  show "ip \<in> ignored (guard_step bo s e)"
    by (simp add: step guard_conflict_ignored)
qed

text \<open>
  C5, as amended. A reply from \<open>h\<close> claims \<open>ip\<close>, the table records \<open>h\<close> with
  another address and \<open>ip\<close> is not ignored. The answers \<open>N\<close> and \<open>n\<close> decline: the
  poisoning has been reported with the question, \<open>addARPEntry\<close> is not called, nothing
  more is printed, and \<open>ip\<close> is added to the ignored addresses. Any other answer
  has the effect of the answer \<open>Y\<close>.
\<close>

theorem guard_declined:
  assumes "reply_from bo h ip e" and "conflict (table s) h ip" and "ip \<notin> ignored s"
  shows "(answer e = ''N'' \<or> answer e = ''n'' \<longrightarrow>
            guard_step bo s e =
              s\<lparr>ignored := insert ip (ignored s), trace := trace s @ [Poisoning h ip]\<rparr>)
       \<and> (answer e \<noteq> ''N'' \<and> answer e \<noteq> ''n'' \<longrightarrow>
            guard_step bo s e = guard_step bo s (e\<lparr>answer := ''Y''\<rparr>))"
proof -
  have y: "reply_from bo h ip (e\<lparr>answer := ''Y''\<rparr>)"
    using assms(1) by (simp add: reply_from_def)
  have "guard_conflict e h ip s = guard_conflict (e\<lparr>answer := ''Y''\<rparr>) h ip s"
    if "answer e \<noteq> ''N''" "answer e \<noteq> ''n''"
    using that by (simp add: guard_conflict_def cong: option.case_cong)
  then show ?thesis
    using guard_step_reply [OF assms(1,2)] guard_step_reply [OF y assms(2)] assms(3)
    by (auto simp add: guard_conflict_declined)
qed

text \<open>
  C8. A reply from \<open>h\<close> claims \<open>ip\<close>, the table records \<open>h\<close> with another address,
  \<open>ip\<close> is not ignored, the answer is neither \<open>N\<close> nor \<open>n\<close>, the first entry that
  records \<open>ip\<close> has the key \<open>k\<close>, and the \<open>ioctl\<close> of \<open>addARPEntry\<close> fails. Then
  the error is printed, \<open>ip\<close> is added to the ignored addresses, and the loop goes on
  with the inputs that follow, \<open>ip\<close> staying ignored.
\<close>

theorem guard_installer_failure:
  assumes "reply_from bo h ip e" and "conflict (table s) h ip" and "ip \<notin> ignored s"
    and "answer e \<noteq> ''N''" and "answer e \<noteq> ''n''"
    and "List.find (\<lambda>i. snd i = ip) (table s) = Some (k, ip)"
    and "ioctl_error e = Some msg"
  shows "guard_step bo s e =
           s\<lparr>ignored := insert ip (ignored s),
             trace := trace s @ [Poisoning h ip, CallAddARPEntry ip k,
               Cerr (''Add ARP entry: '' @ msg), MissingEntry]\<rparr>
       \<and> guard_loop bo s (e # es) = guard_loop bo (guard_step bo s e) es
       \<and> ip \<in> ignored (guard_loop bo s (e # es))"
proof -
  have step: "guard_step bo s e =
           s\<lparr>ignored := insert ip (ignored s),
             trace := trace s @ [Poisoning h ip, CallAddARPEntry ip k,
               Cerr (''Add ARP entry: '' @ msg), MissingEntry]\<rparr>"
    using guard_step_reply [OF assms(1,2)] assms(3-7) by (simp add: guard_conflict_failed)
  then have "ip \<in> ignored (guard_step bo s e)" by simp
  then have "ip \<in> ignored (guard_loop bo (guard_step bo s e) es)"
    using guard_loop_ignored by blast
  then show ?thesis using step by simp
qed

text \<open>
  C9. No iteration of \<open>guard\<close> changes the table or removes an ignored address, and
  so neither does any sequence of iterations. \<open>guard\<close> starts with nothing ignored,
  ends with the table it was given, and what it ignores after some inputs it still
  ignores after more.
\<close>

theorem guard_table_ignored:
  "table (guard_step bo s e) = table s
   \<and> ignored s \<subseteq> ignored (guard_step bo s e)
   \<and> table (guard_loop bo s es) = table s
   \<and> ignored s \<subseteq> ignored (guard_loop bo s es)
   \<and> table (guard bo t es) = t
   \<and> ignored (guard bo t []) = {}
   \<and> ignored (guard bo t es) \<subseteq> ignored (guard bo t (es @ es'))"
  by (simp add: guard_step_table guard_step_ignored guard_loop_table guard_loop_ignored
      guard_def guard_loop_append)

text \<open>
  C10. The ignored addresses are IP addresses alone. Once a conflict about \<open>ip\<close> raised
  by \<open>h\<close> has been handled, a reply in which another hardware address \<open>h'\<close> of the
  table claims \<open>ip\<close> changes nothing: no question, no call, no message.
\<close>

theorem guard_ignores_by_ip:
  assumes "reply_from bo h ip e" and "conflict (table s) h ip" and "ip \<notin> ignored s"
    and "reply_from bo h' ip e'" and "conflict (table s) h' ip" and "h' \<noteq> h"
  shows "ignored (guard_step bo s e) = insert ip (ignored s)
       \<and> guard_step bo (guard_step bo s e) e' = guard_step bo s e"
proof -
  let ?s' = "guard_conflict e h ip s"
  have step: "guard_step bo s e = ?s'"
    using guard_step_reply [OF assms(1,2)] assms(3) by simp
  have "conflict (table ?s') h' ip"
    using assms(5) by (simp add: guard_conflict_table)
  with assms(4)
  have "guard_step bo ?s' e' = (if ip \<in> ignored ?s' then ?s' else guard_conflict e' h' ip ?s')"
    by (rule guard_step_reply)
  then show ?thesis
    by (simp add: step guard_conflict_ignored)
qed

section \<open>Concrete runs\<close>

lemma ipv4_10_values:
  "ipv4 LittleEndian 10 0 0 5 = 0x0500000A"
  "ipv4 LittleEndian 10 0 0 7 = 0x0700000A"
  "ipv4 LittleEndian 10 0 0 9 = 0x0900000A"
  by (simp_all add: ipv4_def mem_u32_def)

lemma hw_AA_BB: "hw_AA \<noteq> hw_BB" "hw_BB \<noteq> hw_AA"
  by (simp_all add: hw_AA_def hw_BB_def)

lemma table_AB_entries:
  "table_AB = [(hw_AA, ipv4 LittleEndian 10 0 0 5), (hw_BB, ipv4 LittleEndian 10 0 0 9)]"
  by (simp add: table_AB_def hw_less_def hw_AA_def hw_BB_def)

lemma resolves_arp_reply: "resolves bo host (arp_reply bo h ip) \<longleftrightarrow> ip = host"
  by (simp add: resolves_def arp_reply_def ntohs_htons)

lemma reply_from_arp_reply:
  "reply_from bo h ip \<lparr>rd = Some (arp_reply bo h' ip'), answer = a, ioctl_error = err\<rparr>
     \<longleftrightarrow> h' = h \<and> ip' = ip"
  by (simp add: reply_from_def arp_reply_def ntohs_htons)

lemma conflict_table_AB:
  "conflict table_AB hw_AA ip \<longleftrightarrow> ip \<noteq> ipv4 LittleEndian 10 0 0 5"
  "conflict table_AB hw_BB ip \<longleftrightarrow> ip \<noteq> ipv4 LittleEndian 10 0 0 9"
  by (auto simp add: conflict_def table_AB_entries table_at_map_of hw_AA_BB ipv4_10_values)

lemma ipv4_range_values:
  "ipv4 LittleEndian 10 0 0 8 = 0x0800000A"
  "ipv4 LittleEndian 10 0 0 10 = 0x0A00000A"
  by (simp_all add: ipv4_def mem_u32_def)

lemma table_AB_sorted: "sorted_wrt hw_less (map fst table_AB)"
  by (simp add: table_AB_entries hw_less_def hw_AA_def hw_BB_def)

text \<open>
  \<open>scan\<close> over 10.0.0.8 and 10.0.0.9: while 10.0.0.8 is resolved, a reply about
  10.0.0.5 is passed over and the next read times out; the reply from 10.0.0.9 is
  entered; two requests are written. Resolving 10.0.0.9 after five replies about
  10.0.0.5, the reply from 10.0.0.9 is not read any more. A reply of
  \<open>AA:AA:AA:AA:AA:AA\<close> about 10.0.0.7 takes the place of its entry for 10.0.0.5.
\<close>

theorem scan_read_loop_resolution_witness:
  "\<not> resolves LittleEndian (ipv4 LittleEndian 10 0 0 8)
       (arp_reply LittleEndian hw_AA (ipv4 LittleEndian 10 0 0 5))
   \<and> \<not> resolves LittleEndian (ipv4 LittleEndian 10 0 0 9)
       (arp_reply LittleEndian hw_AA (ipv4 LittleEndian 10 0 0 5))
   \<and> resolves LittleEndian (ipv4 LittleEndian 10 0 0 9)
       (arp_reply LittleEndian hw_BB (ipv4 LittleEndian 10 0 0 9))
   \<and> scan LittleEndian ld_small (Suc (Suc (Suc 0)))
       [Some (arp_reply LittleEndian hw_AA (ipv4 LittleEndian 10 0 0 5)), None,
        Some (arp_reply LittleEndian hw_BB (ipv4 LittleEndian 10 0 0 9))] =
       Some ([(hw_BB, ipv4 LittleEndian 10 0 0 9)],
         [request LittleEndian ld_small (ipv4 LittleEndian 10 0 0 8),
          request LittleEndian ld_small (ipv4 LittleEndian 10 0 0 9)])
   \<and> scan_read_loop LittleEndian MAX_TRIES_FOR_RESOLV (ipv4 LittleEndian 10 0 0 9) []
       [Some (arp_reply LittleEndian hw_AA (ipv4 LittleEndian 10 0 0 5)),
        Some (arp_reply LittleEndian hw_BB (ipv4 LittleEndian 10 0 0 9)), None] =
       ([(hw_BB, ipv4 LittleEndian 10 0 0 9)], [None])
   \<and> scan_read_loop LittleEndian MAX_TRIES_FOR_RESOLV (ipv4 LittleEndian 10 0 0 9) []
       (map Some (replicate 5 (arp_reply LittleEndian hw_AA (ipv4 LittleEndian 10 0 0 5))) @
        [Some (arp_reply LittleEndian hw_BB (ipv4 LittleEndian 10 0 0 9))]) =
       ([], [Some (arp_reply LittleEndian hw_BB (ipv4 LittleEndian 10 0 0 9))])
   \<and> sorted_wrt hw_less (map fst table_AB)
   \<and> set (table_insert hw_AA (ipv4 LittleEndian 10 0 0 7) table_AB) =
       {(hw_AA, ipv4 LittleEndian 10 0 0 7), (hw_BB, ipv4 LittleEndian 10 0 0 9)}"
proof -
  let ?h8 = "ipv4 LittleEndian 10 0 0 8"
  let ?h9 = "ipv4 LittleEndian 10 0 0 9"
  let ?h10 = "ipv4 LittleEndian 10 0 0 10"
  let ?other = "arp_reply LittleEndian hw_AA (ipv4 LittleEndian 10 0 0 5)"
  let ?reply = "arp_reply LittleEndian hw_BB ?h9"
  let ?claim = "arp_reply LittleEndian hw_AA (ipv4 LittleEndian 10 0 0 7)"
  let ?MAX = MAX_TRIES_FOR_RESOLV
  have other8: "\<not> resolves LittleEndian ?h8 ?other"
    by (simp add: resolves_arp_reply ipv4_10_values ipv4_range_values)
  have other9: "\<not> resolves LittleEndian ?h9 ?other"
    by (simp add: resolves_arp_reply ipv4_10_values)
  have reply: "resolves LittleEndian ?h9 ?reply"
    by (simp add: resolves_arp_reply)
  have one8: "\<forall>f\<in>set [?other]. \<not> resolves LittleEndian ?h8 f"
    using other8 by simp
  have one9: "\<forall>f\<in>set [?other]. \<not> resolves LittleEndian ?h9 f"
    using other9 by simp
  have none9: "\<forall>f\<in>set []. \<not> resolves LittleEndian ?h9 f"
    by simp
  have five: "\<forall>f\<in>set (replicate 5 ?other). \<not> resolves LittleEndian ?h9 f"
    using other9 by simp
  have first: "firstHost ld_small = ?h8" and last: "lastHost ld_small = ?h10"
    by (simp_all add: ld_small_def)
  have next8: "?h8 + IP_ONE LittleEndian = ?h9" and next9: "?h9 + IP_ONE LittleEndian = ?h10"
    by (simp_all add: IP_ONE_LittleEndian ipv4_10_values ipv4_range_values)
  have ne8: "?h8 \<noteq> lastHost ld_small" and ne9: "?h9 \<noteq> lastHost ld_small"
    by (simp_all add: last ipv4_10_values ipv4_range_values)
  have ins: "table_insert hw_BB ?h9 [] = [(hw_BB, ?h9)]"
    by simp
  have src: "hw_src ?reply = hw_BB" "ip_src ?reply = ?h9"
    "hw_src ?claim = hw_AA" "ip_src ?claim = ipv4 LittleEndian 10 0 0 7"
    by (simp_all add: arp_reply_def)
  note at8 = scan_read_loop_resolution [where bo = LittleEndian and host = ?h8
      and fs = "[?other]" and ld = ld_small and fuel = "Suc (Suc 0)" and t = "[]"
      and reads = "[Some ?other, None, Some ?reply]" and rs = "[Some ?reply]", OF one8]
  note at9 = scan_read_loop_resolution [where bo = LittleEndian and host = ?h9
      and fs = "[]" and ld = ld_small and fuel = "Suc 0" and t = "[]"
      and reads = "[Some ?reply]" and rs = "[]" and reply = ?reply, OF none9]
  note at10 = scan_read_loop_resolution [where bo = LittleEndian and host = ?h9
      and fs = "[]" and ld = ld_small and fuel = 0 and t = "[(hw_BB, ?h9)]"
      and reads = "[]", OF none9]
  from at8 other8 have loop8: "scan_read_loop LittleEndian ?MAX ?h8 [] [Some ?other, None, Some ?reply] =
      ([], [Some ?reply])"
    by simp
  from at9 reply have loop9: "scan_read_loop LittleEndian ?MAX ?h9 [] [Some ?reply] =
      ([(hw_BB, ?h9)], [])"
    by (simp add: src)
  from at10
  have "scan_loop LittleEndian ld_small (Suc 0) (lastHost ld_small) [(hw_BB, ?h9)] [] =
      Some ([(hw_BB, ?h9)], [])"
    by blast
  then have end10: "scan_loop LittleEndian ld_small (Suc 0) ?h10 [(hw_BB, ?h9)] [] =
      Some ([(hw_BB, ?h9)], [])"
    by (simp only: last)
  from at9 ne9 have "scan_loop LittleEndian ld_small (Suc (Suc 0)) ?h9 [] [Some ?reply] =
      (case scan_read_loop LittleEndian ?MAX ?h9 [] [Some ?reply] of
         (t', rs') \<Rightarrow>
           map_option (\<lambda>(t'', written). (t'', request LittleEndian ld_small ?h9 # written))
             (scan_loop LittleEndian ld_small (Suc 0) (?h9 + IP_ONE LittleEndian) t' rs'))"
    by blast
  then have step9: "scan_loop LittleEndian ld_small (Suc (Suc 0)) ?h9 [] [Some ?reply] =
      Some ([(hw_BB, ?h9)], [request LittleEndian ld_small ?h9])"
    by (simp only: loop9 next9 end10 prod.case option.map)
  from at8 ne8
  have "scan_loop LittleEndian ld_small (Suc (Suc (Suc 0))) ?h8 [] [Some ?other, None, Some ?reply] =
      (case scan_read_loop LittleEndian ?MAX ?h8 [] [Some ?other, None, Some ?reply] of
         (t', rs') \<Rightarrow>
           map_option (\<lambda>(t'', written). (t'', request LittleEndian ld_small ?h8 # written))
             (scan_loop LittleEndian ld_small (Suc (Suc 0)) (?h8 + IP_ONE LittleEndian) t' rs'))"
    by blast
  then have step8:
    "scan_loop LittleEndian ld_small (Suc (Suc (Suc 0))) ?h8 [] [Some ?other, None, Some ?reply] =
      Some ([(hw_BB, ?h9)], [request LittleEndian ld_small ?h8, request LittleEndian ld_small ?h9])"
    by (simp only: loop8 next8 step9 prod.case option.map)
  from scan_read_loop_resolution [where bo = LittleEndian and host = ?h8
      and fs = "[?other]" and ld = ld_small and fuel = "Suc (Suc (Suc 0))"
      and reads = "[Some ?other, None, Some ?reply]", OF one8]
  have "scan LittleEndian ld_small (Suc (Suc (Suc 0))) [Some ?other, None, Some ?reply] =
      scan_loop LittleEndian ld_small (Suc (Suc (Suc 0))) (firstHost ld_small) []
        [Some ?other, None, Some ?reply]"
    by blast
  then have run: "scan LittleEndian ld_small (Suc (Suc (Suc 0))) [Some ?other, None, Some ?reply] =
      Some ([(hw_BB, ?h9)], [request LittleEndian ld_small ?h8, request LittleEndian ld_small ?h9])"
    by (simp only: first step8)
  from scan_read_loop_resolution [where bo = LittleEndian and host = ?h9
      and fs = "[?other]" and t = "[]" and rs = "[None]" and reply = ?reply, OF one9] reply other9
  have a: "scan_read_loop LittleEndian ?MAX ?h9 [] [Some ?other, Some ?reply, None] =
      ([(hw_BB, ?h9)], [None])"
    by (simp add: src)
  from scan_read_loop_resolution [where bo = LittleEndian and host = ?h9
      and fs = "replicate 5 ?other" and t = "[]" and rs = "[Some ?reply]", OF five]
  have b: "scan_read_loop LittleEndian ?MAX ?h9 []
      (map Some (replicate 5 ?other) @ [Some ?reply]) = ([], [Some ?reply])"
    by (simp del: map_replicate replicate.simps)
  from scan_read_loop_resolution [where bo = LittleEndian and host = ?h9
      and fs = "[]" and t = table_AB and reply = ?claim, OF none9] table_AB_sorted
  have "set (table_insert hw_AA (ipv4 LittleEndian 10 0 0 7) table_AB) =
      insert (hw_AA, ipv4 LittleEndian 10 0 0 7) {p \<in> set table_AB. fst p \<noteq> hw_AA}"
    by (simp only: src)
  also have "{p \<in> set table_AB. fst p \<noteq> hw_AA} = {(hw_BB, ?h9)}"
    using hw_AA_BB by (auto simp add: table_AB_entries)
  finally have c: "set (table_insert hw_AA (ipv4 LittleEndian 10 0 0 7) table_AB) =
      {(hw_AA, ipv4 LittleEndian 10 0 0 7), (hw_BB, ?h9)}" .
  show ?thesis
    using other8 other9 reply run a b table_AB_sorted c by (simp only: simp_thms)
qed

text \<open>
  The table holds \<open>AA:AA:AA:AA:AA:AA\<close> for 10.0.0.5 and \<open>BB:BB:BB:BB:BB:BB\<close> for
  10.0.0.9. \<open>AA:AA:AA:AA:AA:AA\<close> claims 10.0.0.9 and the operator answers \<open>Y\<close>:
  \<open>addARPEntry\<close> is called with 10.0.0.9 and \<open>BB:BB:BB:BB:BB:BB\<close>.
\<close>

theorem guard_accepted_witness:
  "reply_from LittleEndian hw_AA (ipv4 LittleEndian 10 0 0 9) (input_AA_9 ''Y'' None)
   \<and> conflict (table state_AB) hw_AA (ipv4 LittleEndian 10 0 0 9)
   \<and> ipv4 LittleEndian 10 0 0 9 \<notin> ignored state_AB
   \<and> (hw_BB, ipv4 LittleEndian 10 0 0 9) \<in> set (table state_AB)
   \<and> (\<exists>evs. trace (guard_step LittleEndian state_AB (input_AA_9 ''Y'' None)) =
         [Poisoning hw_AA (ipv4 LittleEndian 10 0 0 9),
          CallAddARPEntry (ipv4 LittleEndian 10 0 0 9) hw_BB] @ evs
         \<and> filter is_CallAddARPEntry evs = [])
   \<and> ignored (guard_step LittleEndian state_AB (input_AA_9 ''Y'' None)) =
       {ipv4 LittleEndian 10 0 0 9}"
proof -
  let ?ip = "ipv4 LittleEndian 10 0 0 9"
  let ?e = "input_AA_9 ''Y'' None"
  have r: "reply_from LittleEndian hw_AA ?ip ?e"
    by (simp add: input_AA_9_def reply_from_arp_reply)
  have c: "conflict (table state_AB) hw_AA ?ip"
    by (simp add: state_AB_def conflict_table_AB ipv4_10_values)
  have i: "?ip \<notin> ignored state_AB"
    by (simp add: state_AB_def)
  have y: "answer ?e \<noteq> ''N''" "answer ?e \<noteq> ''n''"
    by (simp_all add: input_AA_9_def)
  have m: "(hw_BB, ?ip) \<in> set (table state_AB)"
    by (simp add: state_AB_def table_AB_entries)
  have f: "List.find (\<lambda>i. snd i = ?ip) (table state_AB) = Some (hw_BB, ?ip)"
    by (simp add: state_AB_def table_AB_entries ipv4_10_values)
  have t: "trace state_AB = []"
    by (simp add: state_AB_def)
  from guard_accepted [OF r c i y] m f t
  have "(\<exists>evs. trace (guard_step LittleEndian state_AB ?e) =
         [Poisoning hw_AA ?ip, CallAddARPEntry ?ip hw_BB] @ evs
         \<and> filter is_CallAddARPEntry evs = [])
      \<and> ignored (guard_step LittleEndian state_AB ?e) = {?ip}"
    by (auto simp add: state_AB_def)
  then show ?thesis using r c i m by simp
qed


text \<open>
  C5, as the specification has it, fails: the answer \<open>no\<close> is not a decline. With
  the same table and the same reply, \<open>addARPEntry\<close> is called.
\<close>

theorem guard_declined_counterexample:
  "answer (input_AA_9 ''no'' None) = ''no''
   \<and> trace (guard_step LittleEndian state_AB (input_AA_9 ''no'' None)) =
       [Poisoning hw_AA (ipv4 LittleEndian 10 0 0 9),
        CallAddARPEntry (ipv4 LittleEndian 10 0 0 9) hw_BB, EntryAdded]"
proof -
  let ?ip = "ipv4 LittleEndian 10 0 0 9"
  let ?e = "input_AA_9 ''no'' None"
  have r: "reply_from LittleEndian hw_AA ?ip ?e"
    by (simp add: input_AA_9_def reply_from_arp_reply)
  have c: "conflict (table state_AB) hw_AA ?ip"
    by (simp add: state_AB_def conflict_table_AB ipv4_10_values)
  have f: "List.find (\<lambda>i. snd i = ?ip) (table state_AB) = Some (hw_BB, ?ip)"
    by (simp add: state_AB_def table_AB_entries ipv4_10_values)
  have "guard_step LittleEndian state_AB ?e = guard_conflict ?e hw_AA ?ip state_AB"
    using guard_step_reply [OF r c] by (simp add: state_AB_def)
  also have "\<dots> = state_AB\<lparr>ignored := insert ?ip (ignored state_AB),
      trace := trace state_AB @ [Poisoning hw_AA ?ip, CallAddARPEntry ?ip (fst (hw_BB, ?ip)), EntryAdded]\<rparr>"
    using f by (intro guard_conflict_added) (simp_all add: input_AA_9_def)
  finally show ?thesis by (simp add: state_AB_def input_AA_9_def)
qed

text \<open>The answer \<open>n\<close> declines; the answer \<open>maybe\<close> does what \<open>Y\<close> does.\<close>

theorem guard_declined_witness:
  "reply_from LittleEndian hw_AA (ipv4 LittleEndian 10 0 0 9) (input_AA_9 ''n'' None)
   \<and> conflict (table state_AB) hw_AA (ipv4 LittleEndian 10 0 0 9)
   \<and> ipv4 LittleEndian 10 0 0 9 \<notin> ignored state_AB
   \<and> guard_step LittleEndian state_AB (input_AA_9 ''n'' None) =
       \<lparr>table = table_AB, ignored = {ipv4 LittleEndian 10 0 0 9},
        trace = [Poisoning hw_AA (ipv4 LittleEndian 10 0 0 9)]\<rparr>
   \<and> guard_step LittleEndian state_AB (input_AA_9 ''maybe'' None) =
       guard_step LittleEndian state_AB (input_AA_9 ''Y'' None)"
proof -
  let ?ip = "ipv4 LittleEndian 10 0 0 9"
  have r: "reply_from LittleEndian hw_AA ?ip (input_AA_9 a None)" for a
    by (simp add: input_AA_9_def reply_from_arp_reply)
  have c: "conflict (table state_AB) hw_AA ?ip"
    by (simp add: state_AB_def conflict_table_AB ipv4_10_values)
  have i: "?ip \<notin> ignored state_AB"
    by (simp add: state_AB_def)
  from guard_declined [OF r [of "''n''"] c i]
  have n: "guard_step LittleEndian state_AB (input_AA_9 ''n'' None) =
       \<lparr>table = table_AB, ignored = {?ip}, trace = [Poisoning hw_AA ?ip]\<rparr>"
    by (simp add: input_AA_9_def state_AB_def)
  from guard_declined [OF r [of "''maybe''"] c i]
  have m: "guard_step LittleEndian state_AB (input_AA_9 ''maybe'' None) =
       guard_step LittleEndian state_AB (input_AA_9 ''Y'' None)"
    by (simp add: input_AA_9_def)
  show ?thesis using r [of "''n''"] c i n m by simp
qed

text \<open>
  The \<open>ioctl\<close> fails with \<open>Operation not permitted\<close>; the same reply read again is
  passed over.
\<close>

theorem guard_installer_failure_witness:
  "reply_from LittleEndian hw_AA (ipv4 LittleEndian 10 0 0 9)
       (input_AA_9 ''Y'' (Some ''Operation not permitted''))
   \<and> conflict (table state_AB) hw_AA (ipv4 LittleEndian 10 0 0 9)
   \<and> List.find (\<lambda>i. snd i = ipv4 LittleEndian 10 0 0 9) (table state_AB) =
       Some (hw_BB, ipv4 LittleEndian 10 0 0 9)
   \<and> guard_loop LittleEndian state_AB
       [input_AA_9 ''Y'' (Some ''Operation not permitted''), input_AA_9 ''Y'' None] =
       \<lparr>table = table_AB, ignored = {ipv4 LittleEndian 10 0 0 9},
        trace = [Poisoning hw_AA (ipv4 LittleEndian 10 0 0 9),
          CallAddARPEntry (ipv4 LittleEndian 10 0 0 9) hw_BB,
          Cerr ''Add ARP entry: Operation not permitted'', MissingEntry]\<rparr>"
proof -
  let ?ip = "ipv4 LittleEndian 10 0 0 9"
  let ?e = "input_AA_9 ''Y'' (Some ''Operation not permitted'')"
  let ?s' = "\<lparr>table = table_AB, ignored = {?ip},
        trace = [Poisoning hw_AA ?ip, CallAddARPEntry ?ip hw_BB,
          Cerr ''Add ARP entry: Operation not permitted'', MissingEntry]\<rparr>"
  have r: "reply_from LittleEndian hw_AA ?ip (input_AA_9 a err)" for a err
    by (simp add: input_AA_9_def reply_from_arp_reply)
  have c: "conflict (table state_AB) hw_AA ?ip"
    by (simp add: state_AB_def conflict_table_AB ipv4_10_values)
  have i: "?ip \<notin> ignored state_AB"
    by (simp add: state_AB_def)
  have y: "answer ?e \<noteq> ''N''" "answer ?e \<noteq> ''n''"
    by (simp_all add: input_AA_9_def)
  have f: "List.find (\<lambda>i. snd i = ?ip) (table state_AB) = Some (hw_BB, ?ip)"
    by (simp add: state_AB_def table_AB_entries ipv4_10_values)
  have err: "ioctl_error ?e = Some ''Operation not permitted''"
    by (simp add: input_AA_9_def)
  from guard_installer_failure [OF r c i y f err, of "[input_AA_9 ''Y'' None]"]
  have step: "guard_step LittleEndian state_AB ?e = ?s'"
    and loop: "guard_loop LittleEndian state_AB [?e, input_AA_9 ''Y'' None] =
      guard_loop LittleEndian (guard_step LittleEndian state_AB ?e) [input_AA_9 ''Y'' None]"
    by (simp_all add: state_AB_def)
  have c': "conflict (table ?s') hw_AA ?ip"
    by (simp add: conflict_table_AB ipv4_10_values)
  have "guard_step LittleEndian ?s' (input_AA_9 ''Y'' None) = ?s'"
    using guard_step_reply [OF r c'] by simp
  then show ?thesis using r c f loop step by simp
qed

text \<open>\<open>AA:AA:AA:AA:AA:AA\<close> claims 10.0.0.7 twice.\<close>

theorem guard_idempotent_witness:
  "reply_from LittleEndian hw_AA (ipv4 LittleEndian 10 0 0 7) (input_AA_7 ''Y'')
   \<and> conflict (table state_AB) hw_AA (ipv4 LittleEndian 10 0 0 7)
   \<and> ipv4 LittleEndian 10 0 0 7 \<notin> ignored state_AB
   \<and> guard_loop LittleEndian state_AB [input_AA_7 ''Y'', input_AA_7 ''n''] =
       guard_step LittleEndian state_AB (input_AA_7 ''Y'')
   \<and> length (filter is_Poisoning
       (trace (guard_loop LittleEndian state_AB [input_AA_7 ''Y'', input_AA_7 ''n'']))) = 1
   \<and> ipv4 LittleEndian 10 0 0 7 \<in> ignored (state_AB\<lparr>ignored := {ipv4 LittleEndian 10 0 0 7}\<rparr>)
   \<and> guard_step LittleEndian (state_AB\<lparr>ignored := {ipv4 LittleEndian 10 0 0 7}\<rparr>)
       (input_AA_7 ''Y'') = state_AB\<lparr>ignored := {ipv4 LittleEndian 10 0 0 7}\<rparr>"
proof -
  let ?ip = "ipv4 LittleEndian 10 0 0 7"
  let ?s = "state_AB\<lparr>ignored := {?ip}\<rparr>"
  have r: "reply_from LittleEndian hw_AA ?ip (input_AA_7 a)" for a
    by (simp add: input_AA_7_def reply_from_arp_reply)
  have c: "conflict (table state_AB) hw_AA ?ip"
    by (simp add: state_AB_def conflict_table_AB ipv4_10_values)
  have c': "conflict (table ?s) hw_AA ?ip"
    by (simp add: state_AB_def conflict_table_AB ipv4_10_values)
  have i: "?ip \<notin> ignored state_AB" and t: "trace state_AB = []"
    by (simp_all add: state_AB_def)
  have same: "rd (input_AA_7 ''n'') = rd (input_AA_7 ''Y'')"
    by (simp add: input_AA_7_def)
  from guard_idempotent [OF r c same] i
  have a1: "guard_loop LittleEndian state_AB [input_AA_7 ''Y'', input_AA_7 ''n''] =
       guard_step LittleEndian state_AB (input_AA_7 ''Y'')"
    and a2: "length (filter is_Poisoning
       (trace (guard_loop LittleEndian state_AB [input_AA_7 ''Y'', input_AA_7 ''n'']))) =
       Suc (length (filter is_Poisoning (trace state_AB)))"
    by blast+
  have a: "guard_loop LittleEndian state_AB [input_AA_7 ''Y'', input_AA_7 ''n''] =
       guard_step LittleEndian state_AB (input_AA_7 ''Y'')"
    "length (filter is_Poisoning
       (trace (guard_loop LittleEndian state_AB [input_AA_7 ''Y'', input_AA_7 ''n'']))) = 1"
    using a1 apply blast
    using a2 by (simp only: t) simp
  from guard_idempotent [OF r c' same]
  have b: "guard_step LittleEndian ?s (input_AA_7 ''Y'') = ?s"
    by simp
  show ?thesis using r c i a b by (simp only: simp_thms) simp
qed

text \<open>
  \<open>AA:AA:AA:AA:AA:AA\<close> claims 10.0.0.7 and the operator declines; then
  \<open>BB:BB:BB:BB:BB:BB\<close> claims 10.0.0.7.
\<close>

theorem guard_ignores_by_ip_witness:
  "reply_from LittleEndian hw_AA (ipv4 LittleEndian 10 0 0 7) (input_AA_7 ''n'')
   \<and> conflict (table state_AB) hw_AA (ipv4 LittleEndian 10 0 0 7)
   \<and> reply_from LittleEndian hw_BB (ipv4 LittleEndian 10 0 0 7) (input_BB_7 ''Y'')
   \<and> conflict (table state_AB) hw_BB (ipv4 LittleEndian 10 0 0 7)
   \<and> hw_BB \<noteq> hw_AA
   \<and> ignored (guard_step LittleEndian state_AB (input_AA_7 ''n'')) = {ipv4 LittleEndian 10 0 0 7}
   \<and> guard_step LittleEndian (guard_step LittleEndian state_AB (input_AA_7 ''n''))
       (input_BB_7 ''Y'') = guard_step LittleEndian state_AB (input_AA_7 ''n'')"
proof -
  let ?ip = "ipv4 LittleEndian 10 0 0 7"
  have r: "reply_from LittleEndian hw_AA ?ip (input_AA_7 ''n'')"
    by (simp add: input_AA_7_def reply_from_arp_reply)
  have r': "reply_from LittleEndian hw_BB ?ip (input_BB_7 ''Y'')"
    by (simp add: input_BB_7_def reply_from_arp_reply)
  have c: "conflict (table state_AB) hw_AA ?ip" and c': "conflict (table state_AB) hw_BB ?ip"
    by (simp_all add: state_AB_def conflict_table_AB ipv4_10_values)
  have i: "?ip \<notin> ignored state_AB" and i': "ignored state_AB = {}"
    by (simp_all add: state_AB_def)
  from guard_ignores_by_ip [OF r c i r' c' hw_AA_BB(2)]
  show ?thesis using r r' c c' hw_AA_BB(2) i' by simp
qed

end
